theory Spec2Isabelle
  imports Complex_Main
begin

text \<open>
  The delegation engine of the toolbox (\<open>consult_secondary_agent\<close>): the helper
  \<open>validatePath\<close> and the function \<open>runAgentLoop\<close> with its loop, its parser of tool
  calls, its dispatch of \<open>save_file\<close> and its extraction of code blocks. The endpoint,
  \<open>JSON.parse\<close>, the file system and the other tools are parameters (\<open>env\<close>).
\<close>

section \<open>Strings\<close>

text \<open>
  The engine is TypeScript; a JavaScript string is a sequence of code units. The model
  uses \<open>string\<close> (a list of 8-bit characters), read as the code units U+0000..U+00FF,
  which covers every literal the engine compares against.
\<close>

definition charCode :: "char \<Rightarrow> int" where
  "charCode c = of_char c"

text \<open>\<open>String.prototype.toLowerCase\<close> on that range: A-Z and the Latin-1 capitals.\<close>

definition lowerChar :: "char \<Rightarrow> char" where
  "lowerChar c =
     (if (65 \<le> charCode c \<and> charCode c \<le> 90) \<or> (192 \<le> charCode c \<and> charCode c \<le> 222 \<and> charCode c \<noteq> 215)
      then char_of (charCode c + 32) else c)"

definition toLowerCase :: "string \<Rightarrow> string" where
  "toLowerCase s = map lowerChar s"

text \<open>The regular-expression class \<open>\s\<close>, which is also what \<open>trim()\<close> strips.\<close>

definition isSpace :: "char \<Rightarrow> bool" where
  "isSpace c = (charCode c \<in> {9, 10, 11, 12, 13, 32, 160})"

text \<open>The class \<open>\w\<close>: \<open>[A-Za-z0-9_]\<close>.\<close>

definition isWord :: "char \<Rightarrow> bool" where
  "isWord c =
     ((65 \<le> charCode c \<and> charCode c \<le> 90) \<or> (97 \<le> charCode c \<and> charCode c \<le> 122) \<or>
      (48 \<le> charCode c \<and> charCode c \<le> 57) \<or> c = CHR ''_'')"

definition trim :: "string \<Rightarrow> string" where
  "trim s = rev (dropWhile isSpace (rev (dropWhile isSpace s)))"

fun startsWith :: "string \<Rightarrow> string \<Rightarrow> bool" where
  "startsWith s [] = True"
| "startsWith [] (p # ps) = False"
| "startsWith (c # cs) (p # ps) = (c = p \<and> startsWith cs ps)"

fun includesStr :: "string \<Rightarrow> string \<Rightarrow> bool" where
  "includesStr [] sub = (sub = [])"
| "includesStr (c # cs) sub = (startsWith (c # cs) sub \<or> includesStr cs sub)"

text \<open>\<open>indexOf\<close>: the offset of the first occurrence of \<open>sub\<close>, if there is one.\<close>

fun indexOf :: "string \<Rightarrow> string \<Rightarrow> nat option" where
  "indexOf [] sub = (if sub = [] then Some 0 else None)"
| "indexOf (c # cs) sub =
     (if startsWith (c # cs) sub then Some 0
      else (case indexOf cs sub of None \<Rightarrow> None | Some k \<Rightarrow> Some (Suc k)))"

text \<open>Decimal rendering of a number inside a template literal.\<close>

definition digitChar :: "nat \<Rightarrow> char" where
  "digitChar d = char_of (48 + d)"

fun showNat :: "nat \<Rightarrow> string" where
  "showNat n = (if n < 10 then [digitChar n] else showNat (n div 10) @ [digitChar (n mod 10)])"

text \<open>\<open>Array.prototype.join\<close> over strings.\<close>

fun joinWith :: "string \<Rightarrow> string list \<Rightarrow> string" where
  "joinWith sep [] = []"
| "joinWith sep [x] = x"
| "joinWith sep (x # y # ys) = x @ sep @ joinWith sep (y # ys)"

section \<open>Paths (\<open>path.posix\<close>) and the security helper\<close>

datatype js_error =
    AccessDenied string
  | TypeError
  | SyntaxError
  | IOError

text \<open>Splitting at \<open>/\<close>; empty segments are kept and dropped by the normalisation.\<close>

fun splitSlash :: "string \<Rightarrow> string list" where
  "splitSlash [] = [[]]"
| "splitSlash (c # cs) =
     (if c = CHR ''/'' then [] # splitSlash cs
      else (case splitSlash cs of [] \<Rightarrow> [[c]] | seg # segs \<Rightarrow> (c # seg) # segs))"

text \<open>
  \<open>normalizeString\<close> of Node's path module: the stack of segments kept so far is held
  in reverse. A \<open>..\<close> pops a segment; with nothing to pop it is dropped for an absolute
  path and kept when \<open>allowAboveRoot\<close>.
\<close>

fun normalizeSegs :: "bool \<Rightarrow> string list \<Rightarrow> string list \<Rightarrow> string list" where
  "normalizeSegs allowAboveRoot acc [] = rev acc"
| "normalizeSegs allowAboveRoot acc (seg # segs) =
     (if seg = [] \<or> seg = ''.'' then normalizeSegs allowAboveRoot acc segs
      else if seg = ''..'' then
        (case acc of
           [] \<Rightarrow> normalizeSegs allowAboveRoot (if allowAboveRoot then [''..''] else []) segs
         | prev # below \<Rightarrow>
             if prev = ''..'' then normalizeSegs allowAboveRoot (''..'' # acc) segs
             else normalizeSegs allowAboveRoot below segs)
      else normalizeSegs allowAboveRoot (seg # acc) segs)"

definition normalizeString :: "bool \<Rightarrow> string \<Rightarrow> string" where
  "normalizeString allowAboveRoot p = joinWith ''/'' (normalizeSegs allowAboveRoot [] (splitSlash p))"

text \<open>
  \<open>path.resolve\<close>: the arguments are taken from right to left, each non-empty one put
  in front, until an absolute one has been met; \<open>process.cwd()\<close> (always absolute)
  comes last. The list given to \<open>prependPaths\<close> is already in that order.
\<close>

fun prependPaths :: "string list \<Rightarrow> string \<Rightarrow> string" where
  "prependPaths [] acc = acc"
| "prependPaths (p # ps) acc =
     (if p = [] then prependPaths ps acc
      else if hd p = CHR ''/'' then p @ ''/'' @ acc
      else prependPaths ps (p @ ''/'' @ acc))"

definition resolve :: "string \<Rightarrow> string list \<Rightarrow> string" where
  "resolve processCwd paths = ''/'' @ normalizeString False (prependPaths (rev paths @ [processCwd]) [])"

text \<open>\<open>path.join\<close> of two arguments, with \<open>path.normalize\<close> written out.\<close>

definition normalize :: "string \<Rightarrow> string" where
  "normalize p =
     (if p = [] then ''.''
      else
        (let isAbsolute = (hd p = CHR ''/'');
             trailingSeparator = (last p = CHR ''/'');
             q = normalizeString (\<not> isAbsolute) p
         in if q = [] then (if isAbsolute then ''/'' else if trailingSeparator then ''./'' else ''.'')
            else (if isAbsolute then ''/'' else []) @ q @ (if trailingSeparator then ''/'' else [])))"

definition join :: "string \<Rightarrow> string \<Rightarrow> string" where
  "join a b = normalize (joinWith ''/'' (filter (\<lambda>p. p \<noteq> []) [a, b]))"

text \<open>
  \<open>validatePath\<close>, the security helper: the resolved path is accepted when its
  lower-cased text starts with the lower-cased resolved base directory.
\<close>

definition validatePath :: "string \<Rightarrow> string \<Rightarrow> string \<Rightarrow> js_error + string" where
  "validatePath processCwd baseDir requestedPath =
     (let resolved = resolve processCwd [baseDir, requestedPath];
          lowerResolved = toLowerCase resolved;
          lowerBase = toLowerCase (resolve processCwd [baseDir])
      in if \<not> startsWith lowerResolved lowerBase then Inl (AccessDenied requestedPath)
         else Inr resolved)"

definition accessDeniedMessage :: "string \<Rightarrow> string" where
  "accessDeniedMessage requestedPath =
     ''Access Denied: Path '' @ [CHR 0x27] @ requestedPath @ [CHR 0x27] @ '' is outside the workspace.''"

section \<open>JavaScript values\<close>

text \<open>
  What \<open>JSON.parse\<close> returns, and \<open>undefined\<close>. An object is its list of properties
  (distinct names). The engine tests a number only for truthiness, so a number is kept as
  a rational; an overflowing literal behaves as any non-zero number.
\<close>

datatype jsval =
    JUndefined
  | JNull
  | JBool bool
  | JNum rat
  | JStr string
  | JArr "jsval list"
  | JObj "(string \<times> jsval) list"

fun truthy :: "jsval \<Rightarrow> bool" where
  "truthy JUndefined = False"
| "truthy JNull = False"
| "truthy (JBool b) = b"
| "truthy (JNum n) = (n \<noteq> 0)"
| "truthy (JStr s) = (s \<noteq> [])"
| "truthy (JArr xs) = True"
| "truthy (JObj kvs) = True"

text \<open>\<open>a || b\<close>.\<close>

definition orElse :: "jsval \<Rightarrow> jsval \<Rightarrow> jsval" where
  "orElse a b = (if truthy a then a else b)"

text \<open>
  Property read \<open>v.k\<close>: a TypeError on \<open>null\<close> and \<open>undefined\<close>. None of the names
  the engine reads is a built-in property of an array, a string, a number or a boolean,
  so on those the read gives \<open>undefined\<close>.
\<close>

fun getProp :: "jsval \<Rightarrow> string \<Rightarrow> js_error + jsval" where
  "getProp JUndefined k = Inl TypeError"
| "getProp JNull k = Inl TypeError"
| "getProp (JObj kvs) k = Inr (case map_of kvs k of None \<Rightarrow> JUndefined | Some v \<Rightarrow> v)"
| "getProp v k = Inr JUndefined"

text \<open>Optional chaining \<open>v?.k\<close>.\<close>

fun getOpt :: "jsval \<Rightarrow> string \<Rightarrow> jsval" where
  "getOpt (JObj kvs) k = (case map_of kvs k of None \<Rightarrow> JUndefined | Some v \<Rightarrow> v)"
| "getOpt v k = JUndefined"

fun assocSet :: "(string \<times> jsval) list \<Rightarrow> string \<Rightarrow> jsval \<Rightarrow> (string \<times> jsval) list" where
  "assocSet [] k v = [(k, v)]"
| "assocSet ((k', v') # kvs) k v = (if k' = k then (k, v) # kvs else (k', v') # assocSet kvs k v)"

text \<open>
  Property write \<open>o.k = v\<close>. The engine writes a property only after a truthy read of
  another property of the same value, so only on an object; the module is strict, where a
  write on a primitive throws.
\<close>

fun setProp :: "jsval \<Rightarrow> string \<Rightarrow> jsval \<Rightarrow> js_error + jsval" where
  "setProp (JObj kvs) k v = Inr (JObj (assocSet kvs k v))"
| "setProp o' k v = Inl TypeError"

definition bindE :: "js_error + 'a \<Rightarrow> ('a \<Rightarrow> js_error + 'b) \<Rightarrow> js_error + 'b" where
  "bindE m f = (case m of Inl e \<Rightarrow> Inl e | Inr x \<Rightarrow> f x)"

fun isArray :: "jsval \<Rightarrow> bool" where
  "isArray (JArr xs) = True"
| "isArray v = False"

section \<open>The session: messages, the environment, the state\<close>

datatype role = System | User | Assistant

record message =
  role :: role
  content :: string

text \<open>
  What one \<open>fetch\<close> of the chat-completion endpoint comes to: an exception (from
  \<open>fetch\<close>, from \<open>response.json()\<close> or from reading \<open>choices[0].message.content\<close> as
  a string) with its message, a response that is not \<open>ok\<close> with its status, or the raw
  content.
\<close>

datatype chat_reply = Threw string | NotOk nat | Ok string

text \<open>
  The effects on the file system: \<open>Write p txt\<close> for a \<open>writeFile\<close> that opened the
  file \<open>p\<close> and left \<open>txt\<close> in it, \<open>Append p txt\<close> for an \<open>appendFile\<close>, in the order
  they happened.
\<close>

datatype fs_event = Write string string | Append string string

text \<open>
  The environment of one delegation: the plugin settings read at the top of the tool
  implementation, and the collaborators the engine calls. \<open>chat\<close> answers a transcript;
  the transcript grows on every turn that continues, so a function of the transcript is
  as general as a sequence of replies. \<open>jsonParse\<close> is \<open>JSON.parse\<close> (\<open>None\<close> when it
  throws). \<open>canMkdir p\<close>, \<open>canWrite p\<close> and \<open>canAppend p\<close> say whether
  \<open>mkdir(dirname(p), {recursive: true})\<close>, \<open>writeFile(p, ...)\<close> and
  \<open>appendFile(p, ...)\<close> succeed. \<open>bufferFrom v\<close> is \<open>Buffer.from(v, "utf-8")\<close> read as
  text, for a value \<open>v\<close> that is not a string (\<open>None\<close> when it throws); \<open>writeFile\<close>
  applies it to the elements of an array it is given. \<open>externalTool\<close> stands for every tool but
  \<open>save_file\<close> (reads, listings, replace, delete, web, code): given the tool call and
  the file-system events so far it gives the tool result, the events after it and the
  names it pushes on \<open>filesModified\<close>. \<open>basePrompt\<close> is the system prompt assembled
  from the instruction files, the workspace and the persona. The collaborators are fixed
  for the length of a run.
\<close>

record env =
  allow_tools :: bool
  allowFileSystem :: bool
  allowWeb :: bool
  allowCode :: bool
  autoSave :: bool
  processCwd :: string
  chat :: "message list \<Rightarrow> chat_reply"
  jsonParse :: "string \<Rightarrow> jsval option"
  canMkdir :: "string \<Rightarrow> bool"
  canWrite :: "string \<Rightarrow> bool"
  canAppend :: "string \<Rightarrow> bool"
  bufferFrom :: "jsval \<Rightarrow> string option"
  libMessage :: "js_error \<Rightarrow> string"
  externalTool :: "jsval \<Rightarrow> fs_event list \<Rightarrow> string \<times> fs_event list \<times> string list"
  basePrompt :: "string \<Rightarrow> string \<Rightarrow> string"
  isoTimestamp :: string

text \<open>
  The local variables of \<open>runAgentLoop\<close>, with the file-system events it has caused and
  the number of chat-completion calls it has made.
\<close>

record agent =
  msgList :: "message list"
  loops :: nat
  finalContent :: string
  filesModified :: "string list"
  processedFiles :: "string set"
  fsLog :: "fs_event list"
  chatCalls :: nat

text \<open>The object \<open>runAgentLoop\<close> returns.\<close>

record agent_result =
  response :: "string option"
  error :: "string option"
  resultFiles :: "string list"

definition errorMessage :: "env \<Rightarrow> js_error \<Rightarrow> string" where
  "errorMessage e err = (case err of AccessDenied p \<Rightarrow> accessDeniedMessage p | _ \<Rightarrow> libMessage e err)"

section \<open>Cleanup of the raw reply\<close>

text \<open>
  \<open>content.replace(/<\|.*?\|>/g, "").trim()\<close>. \<open>markerEnd\<close> reads the text after a
  \<open><|\<close>: the lazy \<open>.*?\<close> stops at the first \<open>|>\<close> and does not cross a line terminator.
\<close>

definition isLineTerminator :: "char \<Rightarrow> bool" where
  "isLineTerminator c = (charCode c = 10 \<or> charCode c = 13)"

fun markerEnd :: "string \<Rightarrow> nat option" where
  "markerEnd [] = None"
| "markerEnd (c # cs) =
     (if startsWith (c # cs) ''|>'' then Some 2
      else if isLineTerminator c then None
      else (case markerEnd cs of None \<Rightarrow> None | Some k \<Rightarrow> Some (Suc k)))"

function stripMarkers :: "string \<Rightarrow> string" where
  "stripMarkers [] = []"
| "stripMarkers (c # cs) =
     (if startsWith (c # cs) ''<|'' then
        (case markerEnd (drop 2 (c # cs)) of
           Some k \<Rightarrow> stripMarkers (drop (2 + k) (c # cs))
         | None \<Rightarrow> c # stripMarkers cs)
      else c # stripMarkers cs)"
  by pat_completeness auto
termination
  by (relation "measure length") auto

definition cleanup :: "string \<Rightarrow> string" where
  "cleanup raw = trim (stripMarkers raw)"

section \<open>The response grammar parser\<close>

text \<open>
  \<open>trimmed.match(/\{[\s\S]*\}/)\<close>: the match starts at the first \<open>{\<close> and, the star
  being greedy, ends at the last \<open>}\<close> of the text.
\<close>

definition jsonMatch :: "string \<Rightarrow> string option" where
  "jsonMatch s =
     (let r = dropWhile (\<lambda>c. c \<noteq> CHR ''{'') s in
      if r = [] then None
      else (let body = rev (dropWhile (\<lambda>c. c \<noteq> CHR ''}'') (rev (tl r))) in
            if body = [] then None else Some (CHR ''{'' # body)))"

text \<open>\<open>trimmed.match(/to=([a-zA-Z0-9_.]+)/)\<close>, its first group.\<close>

definition isToolNameChar :: "char \<Rightarrow> bool" where
  "isToolNameChar c = (isWord c \<or> c = CHR ''.'')"

fun toolNameMatch :: "string \<Rightarrow> string option" where
  "toolNameMatch [] = None"
| "toolNameMatch (c # cs) =
     (if startsWith (c # cs) ''to='' \<and> takeWhile isToolNameChar (drop 3 (c # cs)) \<noteq> []
      then Some (takeWhile isToolNameChar (drop 3 (c # cs)))
      else toolNameMatch cs)"

text \<open>
  The argument mapping both the secondary and the fallback format apply for
  \<open>save_file\<close>: \<open>path\<close> to \<open>file_name\<close>, \<open>data\<close> to \<open>content\<close>.
\<close>

definition mapIfMissing :: "string \<Rightarrow> string \<Rightarrow> jsval \<Rightarrow> js_error + jsval" where
  "mapIfMissing src dst args =
     bindE (getProp args src) (\<lambda>a.
       if \<not> truthy a then Inr args
       else bindE (getProp args dst) (\<lambda>b.
         if \<not> truthy b then setProp args dst a else Inr args))"

definition mapSaveFileArgs :: "jsval \<Rightarrow> js_error + jsval" where
  "mapSaveFileArgs args =
     bindE (mapIfMissing ''path'' ''file_name'' args) (mapIfMissing ''data'' ''content'')"

definition toolCallObject :: "jsval \<Rightarrow> jsval \<Rightarrow> jsval" where
  "toolCallObject toolName args = JObj [(''tool'', toolName), (''args'', args)]"

text \<open>The body of the inner \<open>try\<close>, after \<open>JSON.parse\<close>: the three formats in order.\<close>

definition interpretParsed :: "string \<Rightarrow> jsval \<Rightarrow> js_error + jsval" where
  "interpretParsed trimmed parsed =
     bindE (getProp parsed ''tool'') (\<lambda>ptool.
     bindE (getProp parsed ''args'') (\<lambda>pargs.
       if truthy ptool \<and> truthy pargs then Inr parsed
       else
         bindE (getProp parsed ''name'') (\<lambda>pname.
         bindE (getProp parsed ''arguments'') (\<lambda>parguments.
           if truthy pname \<and> truthy parguments then
             bindE (if pname = JStr ''save_file'' then mapSaveFileArgs parguments else Inr parguments)
               (\<lambda>args. Inr (toolCallObject pname args))
           else
             (case toolNameMatch trimmed of
                None \<Rightarrow> Inr JNull
              | Some matched \<Rightarrow>
                  (let toolName = (if startsWith matched ''functions.'' then drop 10 matched else matched);
                       args0 = (if toolName = ''save_file'' \<and> isArray parsed
                                then JObj [(''files'', parsed)] else parsed)
                   in bindE (if toolName = ''save_file'' then mapSaveFileArgs args0 else Inr args0)
                        (\<lambda>args. Inr (toolCallObject (JStr toolName) args))))))))"

text \<open>\<open>toolCall\<close> after the parsing block; \<open>JNull\<close> is the initial \<open>null\<close>.\<close>

definition parseToolCall :: "env \<Rightarrow> string \<Rightarrow> jsval" where
  "parseToolCall e trimmed =
     (case jsonMatch trimmed of
        None \<Rightarrow> JNull
      | Some spanText \<Rightarrow>
          (case jsonParse e spanText of
             None \<Rightarrow> JNull
           | Some parsed \<Rightarrow>
               (case interpretParsed trimmed parsed of Inl err \<Rightarrow> JNull | Inr toolCall \<Rightarrow> toolCall)))"

text \<open>The test \<open>toolCall && toolCall.tool\<close>.\<close>

definition isToolCall :: "jsval \<Rightarrow> bool" where
  "isToolCall toolCall = (truthy toolCall \<and> truthy (getOpt toolCall ''tool''))"

text \<open>The refusal check, on the trimmed text.\<close>

definition refusalKeywords :: "string list" where
  \<open>refusalKeywords =
     [''i cannot browse'', ''i don't have access'', ''i can't access'',
      ''unable to browse'', ''real-time news'', ''no internet access'',
      ''as an ai'', ''i do not have the ability'', ''cannot access the internet'']\<close>

definition isRefusal :: "string \<Rightarrow> bool" where
  "isRefusal trimmed = list_ex (\<lambda>kw. includesStr (toLowerCase trimmed) kw) refusalKeywords"

section \<open>Tool dispatch: \<open>save_file\<close>\<close>

text \<open>
  \<open>writeFile(fpath, data, "utf-8")\<close> of \<open>fs/promises\<close> on a value that comes from parsed
  JSON. A string is written as it is. An array is an iterable: the file is opened, and the
  elements are written one after another, a string as it is and any other element through
  \<open>Buffer.from\<close>; an element on which that throws ends the write with a TypeError and
  leaves in the file what was written before it. On any other value \<open>writeFile\<close> throws a
  TypeError before it opens the file. The result is the events and the exception, if any.
\<close>

definition chunkText :: "env \<Rightarrow> jsval \<Rightarrow> string option" where
  "chunkText e v = (case v of JStr s \<Rightarrow> Some s | _ \<Rightarrow> bufferFrom e v)"

fun chunksWritten :: "env \<Rightarrow> jsval list \<Rightarrow> string \<times> bool" where
  "chunksWritten e [] = ([], True)"
| "chunksWritten e (v # vs) =
     (case chunkText e v of
        None \<Rightarrow> ([], False)
      | Some s \<Rightarrow> (case chunksWritten e vs of (written, finished) \<Rightarrow> (s @ written, finished)))"

definition writeFile :: "env \<Rightarrow> string \<Rightarrow> jsval \<Rightarrow> fs_event list \<times> js_error option" where
  "writeFile e fpath data =
     (case data of
        JStr s \<Rightarrow> if canWrite e fpath then ([Write fpath s], None) else ([], Some IOError)
      | JArr chunks \<Rightarrow>
          if canWrite e fpath then
            (case chunksWritten e chunks of
               (written, finished) \<Rightarrow> ([Write fpath written], if finished then None else Some TypeError))
          else ([], Some IOError)
      | _ \<Rightarrow> ([], Some TypeError))"

text \<open>
  \<open>validatePath\<close>, \<open>mkdir\<close>, \<open>writeFile\<close> on a name and data that come from parsed
  JSON; \<open>path.resolve\<close> throws a TypeError on a name that is not a string. The result is
  the events, and the exception or, when all three succeeded, the resolved path and the
  name.
\<close>

definition validateAndWrite :: "env \<Rightarrow> string \<Rightarrow> jsval \<Rightarrow> jsval \<Rightarrow> fs_event list \<times> (js_error + (string \<times> string))" where
  "validateAndWrite e cwd fName fContent =
     (case fName of
        JStr name \<Rightarrow>
          (case validatePath (processCwd e) cwd name of
             Inl err \<Rightarrow> ([], Inl err)
           | Inr fpath \<Rightarrow>
               if \<not> canMkdir e fpath then ([], Inl IOError)
               else (case writeFile e fpath fContent of
                       (events, Some err) \<Rightarrow> (events, Inl err)
                     | (events, None) \<Rightarrow> (events, Inr (fpath, name))))
      | _ \<Rightarrow> ([], Inl TypeError))"

definition addEvents :: "agent \<Rightarrow> fs_event list \<Rightarrow> agent" where
  "addEvents st events = st\<lparr>fsLog := fsLog st @ events\<rparr>"

definition recordSave :: "agent \<Rightarrow> string \<Rightarrow> agent" where
  "recordSave st name = st\<lparr>filesModified := filesModified st @ [name]\<rparr>"

text \<open>
  The batch loop over \<open>toolCall.args.files\<close>. Reading a property of a \<open>null\<close> entry
  throws outside the inner \<open>try\<close> and ends the loop with that error; a failure of the
  validation or of the write is swallowed by the inner \<open>catch\<close> and the loop goes on.
\<close>

fun saveBatch :: "env \<Rightarrow> string \<Rightarrow> jsval list \<Rightarrow> agent \<Rightarrow> string list \<Rightarrow> js_error option \<times> agent \<times> string list" where
  "saveBatch e cwd [] st savedList = (None, st, savedList)"
| "saveBatch e cwd (fileObj # rest) st savedList =
     (case bindE (getProp fileObj ''file_name'') (\<lambda>a.
           bindE (getProp fileObj ''name'') (\<lambda>b.
           bindE (getProp fileObj ''path'') (\<lambda>c.
           bindE (getProp fileObj ''content'') (\<lambda>d.
           bindE (getProp fileObj ''data'') (\<lambda>d'.
             Inr (orElse (orElse a b) c, orElse d d')))))) of
        Inl err \<Rightarrow> (Some err, st, savedList)
      | Inr (fName, fContent) \<Rightarrow>
          if truthy fName \<and> truthy fContent then
            (case validateAndWrite e cwd fName fContent of
               (events, Inl err) \<Rightarrow> saveBatch e cwd rest (addEvents st events) savedList
             | (events, Inr (fpath, name)) \<Rightarrow>
                 saveBatch e cwd rest (recordSave (addEvents st events) name) (savedList @ [name]))
          else saveBatch e cwd rest st savedList)"

text \<open>The \<open>save_file\<close> branch: the tool result and the state after it.\<close>

definition saveFileTool :: "env \<Rightarrow> string \<Rightarrow> jsval \<Rightarrow> agent \<Rightarrow> string \<times> agent" where
  "saveFileTool e cwd args st =
     (case getOpt args ''files'' of
        JArr files \<Rightarrow>
          (case saveBatch e cwd files st [] of
             (Some err, st', savedList) \<Rightarrow> (''Error: '' @ errorMessage e err, st')
           | (None, st', savedList) \<Rightarrow>
               (if length savedList > 0
                then ''Success: Saved '' @ showNat (length savedList) @ '' files: '' @ joinWith '', '' savedList
                else ''Error: No valid files found in batch.'', st'))
      | _ \<Rightarrow>
          (let fileName = orElse (orElse (getOpt args ''file_name'') (getOpt args ''name'')) (getOpt args ''path'');
               fContent = orElse (getOpt args ''content'') (getOpt args ''data'')
           in if truthy fileName \<and> truthy fContent then
                (case validateAndWrite e cwd fileName fContent of
                   (events, Inl err) \<Rightarrow> (''Error: '' @ errorMessage e err, addEvents st events)
                 | (events, Inr (fpath, name)) \<Rightarrow>
                     (''Success: File saved to '' @ fpath, recordSave (addEvents st events) name))
              else (''Error: Missing '' @ [CHR 0x27] @ ''file_name'' @ [CHR 0x27] @ '' (or ''
                    @ [CHR 0x27] @ ''name'' @ [CHR 0x27] @ '', '' @ [CHR 0x27] @ ''path'' @ [CHR 0x27]
                    @ '') or '' @ [CHR 0x27] @ ''content'' @ [CHR 0x27] @ '' (or ''
                    @ [CHR 0x27] @ ''data'' @ [CHR 0x27] @ '') arguments.'', st)))"

text \<open>
  The dispatch of a detected tool call. \<open>save_file\<close> is reached when the file system is
  allowed; every other tool, and \<open>save_file\<close> when it is not allowed, is the
  collaborator's.
\<close>

definition dispatch :: "env \<Rightarrow> string \<Rightarrow> jsval \<Rightarrow> agent \<Rightarrow> string \<times> agent" where
  "dispatch e cwd toolCall st =
     (if allowFileSystem e \<and> getOpt toolCall ''tool'' = JStr ''save_file''
      then saveFileTool e cwd (getOpt toolCall ''args'') st
      else (case externalTool e toolCall (fsLog st) of
              (toolResult, log', pushed) \<Rightarrow>
                (toolResult, st\<lparr>fsLog := log', filesModified := filesModified st @ pushed\<rparr>)))"

section \<open>The loop\<close>

datatype outcome = Return agent_result agent | Break agent | Continue agent

definition push2 :: "agent \<Rightarrow> message \<Rightarrow> message \<Rightarrow> agent" where
  "push2 st m1 m2 = st\<lparr>msgList := msgList st @ [m1, m2], loops := loops st + 1\<rparr>"

definition refusalNotice :: string where
  "refusalNotice = ''SYSTEM ERROR: You HAVE access to tools. USE THEM.''"

definition noToolNotice :: string where
  "noToolNotice = ''SYSTEM NOTICE: You did not call a tool. If you are finished, output ''
     @ [CHR 0x27] @ ''TASK_COMPLETED'' @ [CHR 0x27]
     @ ''. If not, please USE A TOOL (e.g., save_file, read_file) to proceed.''"

text \<open>
  One iteration of \<open>while (loops < loopLimit)\<close>. It begins with the one call to the
  endpoint, counted in \<open>chatCalls\<close>; then the function returns (\<open>Return\<close>), leaves
  the loop (\<open>Break\<close>) or goes round again (\<open>Continue\<close>). In the tool branch the
  source pushes the assistant message before the dispatch and the tool output after it;
  the dispatch does not read the transcript, so both are appended here after it.
\<close>

definition turn :: "env \<Rightarrow> bool \<Rightarrow> string \<Rightarrow> nat \<Rightarrow> agent \<Rightarrow> outcome" where
  "turn e toolsEnabled cwd loopLimit st0 =
     (let st = st0\<lparr>chatCalls := chatCalls st0 + 1\<rparr> in
      case chat e (msgList st0) of
        Threw msg \<Rightarrow>
          Return \<lparr>response = None, error = Some msg, resultFiles = filesModified st\<rparr> st
      | NotOk status \<Rightarrow>
          Return \<lparr>response = None, error = Some (''API Error: '' @ showNat status),
                  resultFiles = filesModified st\<rparr> st
      | Ok raw \<Rightarrow>
          (let txt = cleanup raw in
           if \<not> toolsEnabled then
             Return \<lparr>response = Some txt, error = None, resultFiles = filesModified st\<rparr> st
           else if isRefusal (trim txt) then
             Continue (push2 st \<lparr>role = Assistant, content = txt\<rparr>
                                \<lparr>role = System, content = refusalNotice\<rparr>)
           else
             (let toolCall = parseToolCall e (trim txt) in
              if isToolCall toolCall then
                (case dispatch e cwd toolCall st of
                   (toolResult, st') \<Rightarrow>
                     Continue (push2 st' \<lparr>role = Assistant, content = txt\<rparr>
                                         \<lparr>role = User, content = ''Tool Output: '' @ toolResult\<rparr>))
              else if includesStr txt ''TASK_COMPLETED'' \<or> int (loops st) \<ge> int loopLimit - 1 then
                Break (st\<lparr>finalContent := txt\<rparr>)
              else
                Continue (push2 st \<lparr>role = Assistant, content = txt\<rparr>
                                   \<lparr>role = System, content = noToolNotice\<rparr>))))"

text \<open>
  The \<open>while\<close> loop. \<open>Some r\<close> is the object a \<open>return\<close> inside the loop gives
  back; \<open>None\<close> means the loop was left and the function goes on after it.
\<close>

lemma recordSave_loops [simp]: "loops (recordSave st name) = loops st"
  by (simp add: recordSave_def)

lemma addEvents_loops [simp]: "loops (addEvents st events) = loops st"
  by (simp add: addEvents_def)

lemma saveBatch_loops: "loops (fst (snd (saveBatch e cwd files st saved))) = loops st"
proof (induction files arbitrary: st saved)
  case Nil
  then show ?case by simp
next
  case (Cons f fs)
  show ?case
    by (simp add: Cons.IH split: sum.split prod.split)
qed

lemma saveFileTool_loops: "loops (snd (saveFileTool e cwd args st)) = loops st"
proof (cases "getOpt args ''files''")
  case (JArr files)
  obtain err st' saved where sb: "saveBatch e cwd files st [] = (err, st', saved)"
    by (cases "saveBatch e cwd files st []") auto
  have "loops st' = loops st"
    using saveBatch_loops [of e cwd files st "[]"] sb by simp
  then show ?thesis
    using JArr sb by (cases err) (simp_all add: saveFileTool_def)
qed (simp_all add: saveFileTool_def Let_def split: sum.split prod.split)

lemma dispatch_loops: "loops (snd (dispatch e cwd toolCall st)) = loops st"
  by (simp add: dispatch_def saveFileTool_loops split: prod.split)

lemma push2_loops [simp]: "loops (push2 st m1 m2) = Suc (loops st)"
  by (simp add: push2_def)

lemma turn_Continue_loops:
  assumes "turn e toolsEnabled cwd loopLimit st = Continue st'"
  shows "loops st' = Suc (loops st)"
proof (cases "chat e (msgList st)")
  case (Threw msg)
  with assms show ?thesis by (simp add: turn_def)
next
  case (NotOk status)
  with assms show ?thesis by (simp add: turn_def)
next
  case (Ok raw)
  obtain res std where d: "dispatch e cwd (parseToolCall e (trim (cleanup raw))) (st\<lparr>chatCalls := chatCalls st + 1\<rparr>) = (res, std)"
    by (cases "dispatch e cwd (parseToolCall e (trim (cleanup raw))) (st\<lparr>chatCalls := chatCalls st + 1\<rparr>)") auto
  have "loops std = loops st"
    using dispatch_loops [of e cwd "parseToolCall e (trim (cleanup raw))" "st\<lparr>chatCalls := chatCalls st + 1\<rparr>"] d
    by simp
  with assms Ok d show ?thesis
    by (auto simp: turn_def Let_def split: if_splits)
qed

function agentLoop :: "env \<Rightarrow> bool \<Rightarrow> string \<Rightarrow> nat \<Rightarrow> agent \<Rightarrow> agent_result option \<times> agent" where
  "agentLoop e toolsEnabled cwd loopLimit st =
     (if loops st < loopLimit then
        (case turn e toolsEnabled cwd loopLimit st of
           Return r st' \<Rightarrow> (Some r, st')
         | Break st' \<Rightarrow> (None, st')
         | Continue st' \<Rightarrow> agentLoop e toolsEnabled cwd loopLimit st')
      else (None, st))"
  by pat_completeness auto
termination
  by (relation "measure (\<lambda>(e, toolsEnabled, cwd, loopLimit, st). loopLimit - loops st)")
     (auto dest: turn_Continue_loops)

declare agentLoop.simps [simp del]

lemma agentLoop_turn:
  "loops st < loopLimit \<Longrightarrow>
   agentLoop e toolsEnabled cwd loopLimit st =
     (case turn e toolsEnabled cwd loopLimit st of
        Return r st' \<Rightarrow> (Some r, st')
      | Break st' \<Rightarrow> (None, st')
      | Continue st' \<Rightarrow> agentLoop e toolsEnabled cwd loopLimit st')"
  by (subst agentLoop.simps) simp

lemma agentLoop_exhausted:
  "\<not> loops st < loopLimit \<Longrightarrow> agentLoop e toolsEnabled cwd loopLimit st = (None, st)"
  by (subst agentLoop.simps) simp

text \<open>
  The states in which the turns of a loop begin: the state the loop is entered with, and
  the state each continuing turn leaves.
\<close>

inductive turnBegins :: "env \<Rightarrow> bool \<Rightarrow> string \<Rightarrow> nat \<Rightarrow> agent \<Rightarrow> agent \<Rightarrow> bool"
  for e toolsEnabled cwd loopLimit st0 where
    entered: "turnBegins e toolsEnabled cwd loopLimit st0 st0"
  | continued: "turnBegins e toolsEnabled cwd loopLimit st0 st \<Longrightarrow> loops st < loopLimit \<Longrightarrow>
           turn e toolsEnabled cwd loopLimit st = Continue st' \<Longrightarrow>
           turnBegins e toolsEnabled cwd loopLimit st0 st'"

section \<open>The code artifact extractor\<close>

text \<open>One match of \<open>codeBlockRegex\<close>: \<open>match.index\<close>, \<open>match[0]\<close>, \<open>match[1]\<close>, \<open>match[2]\<close>.\<close>

record block =
  index :: nat
  fullBlock :: string
  langGroup :: "string option"
  code :: string

text \<open>
  The regular expression \<open>```\s*(\w+)?\s*([\s\S]*?)```\<close> tried at the start of \<open>s\<close>:
  the length of the match, the language group and the body. The greedy \<open>\s*\<close> and
  \<open>(\w+)?\<close> never have to give anything back, since the characters they take are not
  backticks; the lazy body ends at the first closing fence.
\<close>

definition blockAt :: "string \<Rightarrow> (nat \<times> string option \<times> string) option" where
  "blockAt s =
     (if startsWith s ''```'' then
        (let r1 = dropWhile isSpace (drop 3 s);
             w = takeWhile isWord r1;
             r2 = dropWhile isSpace (drop (length w) r1)
         in case indexOf r2 ''```'' of
              None \<Rightarrow> None
            | Some k \<Rightarrow> Some (length s - length r2 + k + 3, if w = [] then None else Some w, take k r2))
      else None)"

lemma blockAt_pos: "blockAt s = Some (n, lg, c) \<Longrightarrow> 0 < n"
  by (auto simp: blockAt_def Let_def split: if_splits option.splits)

text \<open>\<open>matchAll\<close>: the matches from left to right, each search starting where the last match ended.\<close>

function scanBlocks :: "nat \<Rightarrow> string \<Rightarrow> block list" where
  "scanBlocks off s =
     (if s = [] then []
      else (case blockAt s of
              Some (n, lg, c) \<Rightarrow>
                \<lparr>index = off, fullBlock = take n s, langGroup = lg, code = c\<rparr> # scanBlocks (off + n) (drop n s)
            | None \<Rightarrow> scanBlocks (off + 1) (tl s)))"
  by pat_completeness auto
termination
  by (relation "measure (\<lambda>(off, s). length s)") (auto dest: blockAt_pos)

declare scanBlocks.simps [simp del]

definition matchAll :: "string \<Rightarrow> block list" where
  "matchAll s = scanBlocks 0 s"

text \<open>
  The file-name group \<open>([\w\-\/\\.]+\.(?:tsx|ts|...))\<close> under the flag \<open>i\<close>, tried at the
  start of \<open>s\<close>. The class takes the longest run and gives characters back one at a time
  until a dot followed by an extension comes next; of the extensions the first alternative
  that matches is taken, in the order of the source.
\<close>

definition extensions :: "string list" where
  "extensions = [''tsx'', ''ts'', ''jsx'', ''js'', ''html'', ''css'', ''json'', ''md'', ''py'', ''sh'',
     ''java'', ''rs'', ''go'', ''sql'', ''yaml'', ''yml'', ''c'', ''cpp'', ''h'', ''hpp'', ''txt'']"

definition isPathChar :: "char \<Rightarrow> bool" where
  "isPathChar c = (isWord c \<or> c = CHR ''-'' \<or> c = CHR ''/'' \<or> c = CHR 0x5C \<or> c = CHR ''.'')"

definition extensionAt :: "string \<Rightarrow> string option" where
  "extensionAt s = find (\<lambda>x. startsWith (toLowerCase (take (length x) s)) x) extensions"

fun tryDot :: "string \<Rightarrow> nat \<Rightarrow> string option" where
  "tryDot s 0 = None"
| "tryDot s (Suc m) =
     (if Suc m < length s \<and> s ! Suc m = CHR ''.'' then
        (case extensionAt (drop (Suc (Suc m)) s) of
           Some x \<Rightarrow> Some (take (Suc (Suc m) + length x) s)
         | None \<Rightarrow> tryDot s m)
      else tryDot s m)"

definition fileToken :: "string \<Rightarrow> string option" where
  "fileToken s = tryDot s (length (takeWhile isPathChar s))"

text \<open>The lazy \<open>[\s\S]*?\<close> in front of the group: the first position where the group matches.\<close>

fun findToken :: "string \<Rightarrow> string option" where
  "findToken [] = None"
| "findToken (c # cs) = (case fileToken (c # cs) of Some f \<Rightarrow> Some f | None \<Rightarrow> findToken cs)"

text \<open>The alternatives \<open>(?:`|\*\*|###|filename:|file:)\<close> at the start of \<open>s\<close>: the length matched.\<close>

definition triggerAt :: "string \<Rightarrow> nat option" where
  "triggerAt s =
     (if startsWith s ''`'' then Some 1
      else if startsWith s ''**'' then Some 2
      else if startsWith s ''###'' then Some 3
      else if startsWith (toLowerCase (take 9 s)) ''filename:'' then Some 9
      else if startsWith (toLowerCase (take 5 s)) ''file:'' then Some 5
      else None)"

text \<open>\<open>lookback.match(...)\<close>, its first group: the leftmost start at which the whole expression matches.\<close>

fun nameMatch :: "string \<Rightarrow> string option" where
  "nameMatch [] = None"
| "nameMatch (c # cs) =
     (case triggerAt (c # cs) of
        Some k \<Rightarrow> (case findToken (drop k (c # cs)) of Some f \<Rightarrow> Some f | None \<Rightarrow> nameMatch cs)
      | None \<Rightarrow> nameMatch cs)"

text \<open>
  \<open>firstLine.match(/^(?:\/\/|#|<!--|;)\s*(?:filename:|file:)?\s*(...)/i)\<close>, its first
  group. When the optional label matched and no file name follows it, the expression is
  tried again without the label.
\<close>

definition commentPrefix :: "string \<Rightarrow> nat option" where
  "commentPrefix s =
     (if startsWith s ''//'' then Some 2
      else if startsWith s ''#'' then Some 1
      else if startsWith s ''<!--'' then Some 4
      else if startsWith s '';'' then Some 1
      else None)"

definition labelAt :: "string \<Rightarrow> nat option" where
  "labelAt s =
     (if startsWith (toLowerCase (take 9 s)) ''filename:'' then Some 9
      else if startsWith (toLowerCase (take 5 s)) ''file:'' then Some 5
      else None)"

definition commentMatch :: "string \<Rightarrow> string option" where
  "commentMatch firstLine =
     (case commentPrefix firstLine of
        None \<Rightarrow> None
      | Some k \<Rightarrow>
          (let r1 = dropWhile isSpace (drop k firstLine) in
           case labelAt r1 of
             Some j \<Rightarrow>
               (case fileToken (dropWhile isSpace (drop j r1)) of
                  Some f \<Rightarrow> Some f
                | None \<Rightarrow> fileToken r1)
           | None \<Rightarrow> fileToken r1))"

text \<open>
  The inference of \<open>fileName\<close>: the 500 characters of the current \<open>finalContent\<close> in
  front of the block, then the first line of the body. The empty string stands for "no
  file name", as in the source.
\<close>

definition inferFileName :: "string \<Rightarrow> nat \<Rightarrow> string \<Rightarrow> string" where
  "inferFileName text i body =
     (let lookback = drop (i - 500) (take i text);
          fileName = (case nameMatch lookback of Some f \<Rightarrow> trim f | None \<Rightarrow> [])
      in if fileName = [] then
           (let firstLine = trim (takeWhile (\<lambda>c. c \<noteq> CHR 0x0A) body) in
            case commentMatch firstLine of Some f \<Rightarrow> trim f | None \<Rightarrow> [])
         else fileName)"

definition shellTags :: "string list" where
  "shellTags = [''bash'', ''sh'', ''cmd'', ''powershell'', ''console'', ''zsh'', ''terminal'']"

text \<open>\<open>finalContent.slice(0, index) + replacement + finalContent.slice(index + fullBlock.length)\<close>.\<close>

definition replaceSpan :: "string \<Rightarrow> nat \<Rightarrow> nat \<Rightarrow> string \<Rightarrow> string" where
  "replaceSpan text i n replacement = take i text @ replacement @ drop (i + n) text"

definition recordExtract :: "agent \<Rightarrow> string \<Rightarrow> agent" where
  "recordExtract st name =
     st\<lparr>filesModified := filesModified st @ [name],
        processedFiles := insert name (processedFiles st)\<rparr>"

text \<open>
  The loop over a parsed JSON array (Smart JSON Unpacking): the state and the count of
  extracted files, \<open>None\<close> when an exception left the loop (a \<open>null\<close> item, a path
  refused by \<open>validatePath\<close>, a failed \<open>mkdir\<close> or \<open>writeFile\<close>); what was written
  before stays written.
\<close>

definition itemTarget :: "jsval \<Rightarrow> js_error + (jsval \<times> jsval)" where
  "itemTarget item =
     bindE (getProp item ''path'') (\<lambda>a.
     bindE (getProp item ''file_name'') (\<lambda>b.
     bindE (getProp item ''name'') (\<lambda>c.
     bindE (getProp item ''content'') (\<lambda>d.
     bindE (getProp item ''data'') (\<lambda>d'.
     bindE (getProp item ''code'') (\<lambda>d''.
       Inr (orElse (orElse a b) c, orElse (orElse d d') d'')))))))"

text \<open>\<open>v && typeof v === "string"\<close>.\<close>

fun isTruthyString :: "jsval \<Rightarrow> bool" where
  "isTruthyString (JStr s) = (s \<noteq> [])"
| "isTruthyString v = False"

fun unpackItems :: "env \<Rightarrow> string \<Rightarrow> jsval list \<Rightarrow> agent \<Rightarrow> nat \<Rightarrow> agent \<times> nat option" where
  "unpackItems e cwd [] st extractedCount = (st, Some extractedCount)"
| "unpackItems e cwd (item # rest) st extractedCount =
     (case itemTarget item of
        Inl err \<Rightarrow> (st, None)
      | Inr (fName, fContent) \<Rightarrow>
          if isTruthyString fName \<and> isTruthyString fContent then
            (case validateAndWrite e cwd fName fContent of
               (events, Inl err) \<Rightarrow> (addEvents st events, None)
             | (events, Inr (fpath, name)) \<Rightarrow>
                 unpackItems e cwd rest (recordExtract (addEvents st events) name) (extractedCount + 1))
          else unpackItems e cwd rest st extractedCount)"

definition batchNotice :: "nat \<Rightarrow> string" where
  "batchNotice n = [CHR 0x0A] @ ''[System: Successfully extracted and saved '' @ showNat n
     @ '' files from JSON block.]'' @ [CHR 0x0A]"

definition savedNotice :: "string \<Rightarrow> string" where
  "savedNotice fileName = [CHR 0x0A] @ ''[System: File '' @ [CHR 0x27] @ fileName @ [CHR 0x27]
     @ '' created successfully.]'' @ [CHR 0x0A]"

text \<open>The \<open>if (lang === "json")\<close> block: the state and \<open>handledAsBatch\<close>.\<close>

definition unpackJson :: "env \<Rightarrow> string \<Rightarrow> block \<Rightarrow> agent \<Rightarrow> agent \<times> bool" where
  "unpackJson e cwd m st =
     (case jsonParse e (code m) of
        Some (JArr items) \<Rightarrow>
          (case unpackItems e cwd items st 0 of
             (st', Some extractedCount) \<Rightarrow>
               if extractedCount > 0 then
                 (st'\<lparr>finalContent := replaceSpan (finalContent st') (index m) (length (fullBlock m))
                                          (batchNotice extractedCount)\<rparr>, True)
               else (st', False)
           | (st', None) \<Rightarrow> (st', False))
      | _ \<Rightarrow> (st, False))"

text \<open>The single-file path, from the lookback to the write.\<close>

definition saveSingle :: "env \<Rightarrow> string \<Rightarrow> string \<Rightarrow> block \<Rightarrow> agent \<Rightarrow> agent" where
  "saveSingle e cwd lang m st =
     (let fileName = inferFileName (finalContent st) (index m) (code m);
          isShell = (lang \<in> set shellTags)
      in if isShell \<and> fileName = [] then st
         else if fileName = [] then st
         else if fileName \<in> processedFiles st then st
         else
           (let fpath = join cwd fileName in
            if canMkdir e fpath \<and> canWrite e fpath then
              (recordExtract (addEvents st [Write fpath (code m)]) fileName)
                \<lparr>finalContent := replaceSpan (finalContent st) (index m) (length (fullBlock m))
                                   (savedNotice fileName)\<rparr>
            else st))"

text \<open>The body of the \<open>for\<close> loop over the matches.\<close>

definition extractBlock :: "env \<Rightarrow> string \<Rightarrow> agent \<Rightarrow> block \<Rightarrow> agent" where
  "extractBlock e cwd st m =
     (let lang = toLowerCase (case langGroup m of None \<Rightarrow> ''txt'' | Some l \<Rightarrow> l) in
      case (if lang = ''json'' then unpackJson e cwd m st else (st, False)) of
        (st1, handledAsBatch) \<Rightarrow>
          if \<not> handledAsBatch \<and> length (trim (code m)) > 50 then saveSingle e cwd lang m st1
          else st1)"

text \<open>
  The Auto-Save Logic: a fresh \<open>processedFiles\<close>, and the matches of the original
  text walked backwards.
\<close>

definition autoSavePass :: "env \<Rightarrow> string \<Rightarrow> agent \<Rightarrow> agent" where
  "autoSavePass e cwd st =
     foldl (extractBlock e cwd) (st\<lparr>processedFiles := {}\<rparr>) (rev (matchAll (finalContent st)))"

section \<open>The history log and the whole function\<close>

definition logEntry :: "env \<Rightarrow> string \<Rightarrow> string list \<Rightarrow> string" where
  \<open>logEntry e taskPrompt files =
     [CHR 0x0A] @ ''- **['' @ isoTimestamp e @ '']** Task: "'' @ take 50 taskPrompt @ ''..." | Modified: ''
     @ joinWith '', '' files\<close>

definition logHistory :: "env \<Rightarrow> string \<Rightarrow> string \<Rightarrow> agent \<Rightarrow> agent" where
  "logHistory e cwd taskPrompt st =
     (if length (filesModified st) > 0 \<and> allowFileSystem e then
        (let infoPath = join cwd ''beledarian_info.md'';
             entry = logEntry e taskPrompt (filesModified st)
         in if canAppend e infoPath then st\<lparr>fsLog := fsLog st @ [Append infoPath entry]\<rparr>
            else if canWrite e infoPath then
              st\<lparr>fsLog := fsLog st @ [Write infoPath (''# Project History'' @ [CHR 0x0A] @ entry)]\<rparr>
            else st)
      else st)"

definition allowedTools :: "env \<Rightarrow> string list" where
  "allowedTools e =
     (if allowFileSystem e then
        [''read_file'', ''list_directory'', ''save_file'', ''replace_text_in_file'',
         ''delete_files_by_pattern'', ''rag_local_files'', ''search_file_content'']
      else [])
     @ (if allowWeb e then
          [''wikipedia_search'', ''duckduckgo_search'', ''fetch_web_content'', ''rag_web_content'']
        else [])
     @ (if allowCode e then [''run_python'', ''run_javascript''] else [])"

definition toolsSection :: "string \<Rightarrow> string" where
  \<open>toolsSection toolsList =
     [CHR 0x0A, CHR 0x0A] @ ''## Allowed Tools'' @ [CHR 0x0A]
     @ ''You have access to the following tools via JSON output: '' @ toolsList @ ''.'' @ [CHR 0x0A]
     @ ''Refer to the "Tool Usage" section above for the JSON format.'' @ [CHR 0x0A]\<close>

definition toolsReminder :: "string \<Rightarrow> string" where
  \<open>toolsReminder toolsList =
     [CHR 0x0A, CHR 0x0A] @ ''[SYSTEM REMINDER: You have access to tools: '' @ toolsList
     @ ''. If you need information you don't have, USE A TOOL. Do not refuse.]''\<close>

definition initialMessages :: "env \<Rightarrow> bool \<Rightarrow> string \<Rightarrow> string \<Rightarrow> string \<Rightarrow> string \<Rightarrow> message list" where
  "initialMessages e toolsEnabled agentRole taskPrompt contextData cwd =
     (let announce = (toolsEnabled \<and> length (allowedTools e) > 0);
          toolsList = joinWith '', '' (allowedTools e)
      in [\<lparr>role = System,
            content = basePrompt e agentRole cwd @ (if announce then toolsSection toolsList else [])\<rparr>,
          \<lparr>role = User,
            content = ''Task: '' @ taskPrompt @ [CHR 0x0A, CHR 0x0A] @ ''Context: '' @ contextData
                      @ (if announce then toolsReminder toolsList else [])\<rparr>])"

definition initialAgent :: "message list \<Rightarrow> agent" where
  "initialAgent msgs =
     \<lparr>msgList = msgs, loops = 0, finalContent = [], filesModified = [], processedFiles = {},
      fsLog = [], chatCalls = 0\<rparr>"

text \<open>
  \<open>runAgentLoop(role, taskPrompt, contextData, loopLimit, forceTools,
  currentWorkingDirectory)\<close>: the object returned, with the final state (the file-system
  events of the run and the number of chat-completion calls).
\<close>

definition runAgentLoop :: "env \<Rightarrow> string \<Rightarrow> string \<Rightarrow> string \<Rightarrow> nat \<Rightarrow> bool \<Rightarrow> string \<Rightarrow> agent_result \<times> agent" where
  "runAgentLoop e agentRole taskPrompt contextData loopLimit forceTools cwd =
     (let toolsEnabled = (allow_tools e \<or> forceTools);
          st0 = initialAgent (initialMessages e toolsEnabled agentRole taskPrompt contextData cwd)
      in case agentLoop e toolsEnabled cwd loopLimit st0 of
           (Some r, st) \<Rightarrow> (r, st)
         | (None, st) \<Rightarrow>
             (let st1 = (if autoSave e \<and> allowFileSystem e \<and> finalContent st \<noteq> []
                         then autoSavePass e cwd st else st);
                  st2 = logHistory e cwd taskPrompt st1
              in (\<lparr>response = Some (finalContent st2), error = None, resultFiles = filesModified st2\<rparr>, st2)))"

section \<open>What the extraction pass does to one file\<close>

text \<open>The file an event writes or appends to.\<close>

fun targetOf :: "fs_event \<Rightarrow> string" where
  "targetOf (Write p txt) = p"
| "targetOf (Append p txt) = p"

definition eventsOn :: "string \<Rightarrow> fs_event list \<Rightarrow> fs_event list" where
  "eventsOn fp events = filter (\<lambda>ev. targetOf ev = fp) events"

definition blockLang :: "block \<Rightarrow> string" where
  "blockLang m = toLowerCase (case langGroup m of None \<Rightarrow> ''txt'' | Some l \<Rightarrow> l)"

text \<open>Whether the JSON unpacking handles the block as a batch; the state plays no part in it.\<close>

definition handledAsBatch :: "env \<Rightarrow> string \<Rightarrow> block \<Rightarrow> bool" where
  "handledAsBatch e cwd m = (blockLang m = ''json'' \<and> snd (unpackJson e cwd m (initialAgent [])))"

text \<open>The block comes to the single-file path: not handled as a batch, and long enough.\<close>

definition reachesSingle :: "env \<Rightarrow> string \<Rightarrow> block \<Rightarrow> bool" where
  "reachesSingle e cwd m = (\<not> handledAsBatch e cwd m \<and> length (trim (code m)) > 50)"

text \<open>The names of the entries of a JSON block that parses to an array.\<close>

definition batchNames :: "env \<Rightarrow> block \<Rightarrow> string list" where
  "batchNames e m =
     (if blockLang m = ''json'' then
        (case jsonParse e (code m) of
           Some (JArr items) \<Rightarrow>
             concat (map (\<lambda>item. case itemTarget item of Inr (JStr n, c) \<Rightarrow> [n] | _ \<Rightarrow> []) items)
         | _ \<Rightarrow> [])
      else [])"

text \<open>
  The blocks of a text that come to the single-file path with the inferred name \<open>p\<close>, in the
  order of the text.
\<close>

definition namedBlocks :: "env \<Rightarrow> string \<Rightarrow> string \<Rightarrow> string \<Rightarrow> block list" where
  "namedBlocks e cwd t p =
     filter (\<lambda>m. reachesSingle e cwd m \<and> inferFileName t (index m) (code m) = p) (matchAll t)"

text \<open>
  The current text agrees with the original text \<open>t\<close> on its first \<open>k\<close> characters.
\<close>

definition agreesUpTo :: "string \<Rightarrow> nat \<Rightarrow> agent \<Rightarrow> bool" where
  "agreesUpTo t k st = (k \<le> length (finalContent st) \<and> take k (finalContent st) = take k t)"

section \<open>A sample environment\<close>

text \<open>
  An environment for concrete runs: the file system and the web are as set, every
  \<open>mkdir\<close>, \<open>writeFile\<close> and \<open>appendFile\<close> succeeds, \<open>Buffer.from\<close> throws on
  what is not a string, the endpoint and \<open>JSON.parse\<close> are given.
\<close>

definition sampleEnv :: "bool \<Rightarrow> (message list \<Rightarrow> chat_reply) \<Rightarrow> (string \<Rightarrow> jsval option) \<Rightarrow> env" where
  "sampleEnv tools reply parse =
     \<lparr>allow_tools = tools, allowFileSystem = True, allowWeb = False, allowCode = False,
      autoSave = True, processCwd = ''/'', chat = reply, jsonParse = parse,
      canMkdir = (\<lambda>p. True), canWrite = (\<lambda>p. True), canAppend = (\<lambda>p. True),
      bufferFrom = (\<lambda>v. None),
      libMessage = (\<lambda>err. ''error''),
      externalTool = (\<lambda>toolCall log. (''Error: Tool not found/allowed.'', log, [])),
      basePrompt = (\<lambda>agentRole cwd. ''You are a helpful assistant.''),
      isoTimestamp = ''2025-01-01T00:00:00.000Z''\<rparr>"

definition refusingReply :: string where
  \<open>refusingReply = ''As an AI I cannot run tools. <|im_end|>''\<close>

definition saveCallText :: string where
  \<open>saveCallText = ''{"tool":"save_file","args":{"path":"a.ts","data":"x"}}''\<close>

definition saveCallValue :: jsval where
  "saveCallValue = JObj [(''tool'', JStr ''save_file''),
     (''args'', JObj [(''path'', JStr ''a.ts''), (''data'', JStr ''x'')])]"

definition altCallText :: string where
  \<open>altCallText = ''{"name":"save_file","arguments":{"file_name":"a.ts","content":"x"}}''\<close>

definition altCallValue :: jsval where
  "altCallValue = JObj [(''name'', JStr ''save_file''),
     (''arguments'', JObj [(''file_name'', JStr ''a.ts''), (''content'', JStr ''x'')])]"

definition bareArgsText :: string where
  \<open>bareArgsText = ''{"path":"a.ts","data":"x"}''\<close>

definition bareArgsValue :: jsval where
  "bareArgsValue = JObj [(''path'', JStr ''a.ts''), (''data'', JStr ''x'')]"

text \<open>What \<open>JSON.parse\<close> gives on the sample texts; on the other texts of the samples it throws.\<close>

definition sampleParse :: "string \<Rightarrow> jsval option" where
  "sampleParse s =
     (if s = saveCallText then Some saveCallValue
      else if s = altCallText then Some altCallValue
      else if s = bareArgsText then Some bareArgsValue
      else None)"

definition hedgedReply :: string where
  \<open>hedgedReply = ''As an AI I should not, but: '' @ saveCallText\<close>

definition doneRefusingReply :: string where
  \<open>doneRefusingReply = ''I can't access the disk. TASK_COMPLETED''\<close>


definition stallingReply :: string where
  "stallingReply = ''Still thinking about it.''"

text \<open>
  The spec's wording of what the parser looks at, "the first well-formed \<open>{...}\<close> span":
  from the first \<open>{\<close> to the brace that closes it.
\<close>

fun closingBrace :: "string \<Rightarrow> nat \<Rightarrow> nat option" where
  "closingBrace [] depth = None"
| "closingBrace (c # cs) depth =
     (if c = CHR ''}'' \<and> depth = 0 then Some 1
      else (case closingBrace cs (if c = CHR ''{'' then depth + 1 else if c = CHR ''}'' then depth - 1 else depth) of
              None \<Rightarrow> None
            | Some n \<Rightarrow> Some (Suc n)))"

definition specFirstWellFormedSpan :: "string \<Rightarrow> string option" where
  "specFirstWellFormedSpan s =
     (let r = dropWhile (\<lambda>c. c \<noteq> CHR ''{'') s in
      if r = [] then None
      else (case closingBrace (tl r) 0 of None \<Rightarrow> None | Some n \<Rightarrow> Some (take (Suc n) r)))"

definition twoObjectsReply :: string where
  \<open>twoObjectsReply = saveCallText @ '' {"done":true}''\<close>

definition brokenCallReply :: string where
  \<open>brokenCallReply = ''Saving now: {"tool": save_file, "args": {}}''\<close>

definition fallbackReply :: string where
  \<open>fallbackReply = ''to=functions.save_file '' @ bareArgsText\<close>

definition shellReply :: string where
  \<open>shellReply = ''Install the packages first:'' @ [CHR 0x0A] @ ''```bash'' @ [CHR 0x0A]
     @ ''npm install express body-parser cors dotenv mongoose'' @ [CHR 0x0A]
     @ ''npm run build'' @ [CHR 0x0A] @ ''```'' @ [CHR 0x0A] @ ''TASK_COMPLETED''\<close>

definition shellBlock :: block where
  \<open>shellBlock = \<lparr>index = 28,
     fullBlock = ''```bash'' @ [CHR 0x0A] @ ''npm install express body-parser cors dotenv mongoose''
        @ [CHR 0x0A] @ ''npm run build'' @ [CHR 0x0A] @ ''```'',
     langGroup = Some ''bash'',
     code = ''npm install express body-parser cors dotenv mongoose'' @ [CHR 0x0A] @ ''npm run build''
        @ [CHR 0x0A]\<rparr>\<close>

definition escapeBody :: string where
  \<open>escapeBody = ''import os'' @ [CHR 0x0A] @ ''print(os.getcwd(), "written by the extractor")''
     @ [CHR 0x0A]\<close>

definition escapeReply :: string where
  \<open>escapeReply = ''### ../evil.py'' @ [CHR 0x0A] @ ''```python'' @ [CHR 0x0A] @ escapeBody @ ''```''
     @ [CHR 0x0A] @ ''TASK_COMPLETED''\<close>

definition siblingCall :: jsval where
  "siblingCall = JObj [(''tool'', JStr ''save_file''),
     (''args'', JObj [(''file_name'', JStr ''../ws-old/x.txt''), (''content'', JStr ''x'')])]"

definition twiceBody1 :: string where
  \<open>twiceBody1 = ''export const version = 1; // first draft of the module'' @ [CHR 0x0A]\<close>

definition twiceBody2 :: string where
  \<open>twiceBody2 = ''export const version = 2; // final state of the module'' @ [CHR 0x0A]\<close>

definition twiceReply :: string where
  \<open>twiceReply = ''`a.ts`'' @ [CHR 0x0A] @ ''```ts'' @ [CHR 0x0A] @ twiceBody1 @ ''```'' @ [CHR 0x0A]
     @ ''`a.ts`'' @ [CHR 0x0A] @ ''```ts'' @ [CHR 0x0A] @ twiceBody2 @ ''```''\<close>

definition batchText :: string where
  \<open>batchText = ''[{"path":"a.ts","content":"export const version = 0;"}]'' @ [CHR 0x0A]\<close>

definition batchValue :: jsval where
  "batchValue = JArr [JObj [(''path'', JStr ''a.ts''), (''content'', JStr ''export const version = 0;'')]]"

definition batchParse :: "string \<Rightarrow> jsval option" where
  "batchParse s = (if s = batchText then Some batchValue else None)"

definition twiceThenBatchReply :: string where
  \<open>twiceThenBatchReply = twiceReply @ [CHR 0x0A] @ ''```json'' @ [CHR 0x0A] @ batchText @ ''```''\<close>

definition flakyChat :: "message list \<Rightarrow> chat_reply" where
  "flakyChat msgs = (if length msgs = 2 then Ok stallingReply else NotOk 503)"

text \<open>The state an outcome carries.\<close>

fun outcomeState :: "outcome \<Rightarrow> agent" where
  "outcomeState (Return r st) = st"
| "outcomeState (Break st) = st"
| "outcomeState (Continue st) = st"

section \<open>Facts about one turn\<close>

lemma turn_NotOk:
  "chat e (msgList st) = NotOk status \<Longrightarrow>
   turn e toolsEnabled cwd loopLimit st =
     Return \<lparr>response = None, error = Some (''API Error: '' @ showNat status), resultFiles = filesModified st\<rparr>
            (st\<lparr>chatCalls := chatCalls st + 1\<rparr>)"
  by (simp add: turn_def)

lemma turn_Threw:
  "chat e (msgList st) = Threw msg \<Longrightarrow>
   turn e toolsEnabled cwd loopLimit st =
     Return \<lparr>response = None, error = Some msg, resultFiles = filesModified st\<rparr>
            (st\<lparr>chatCalls := chatCalls st + 1\<rparr>)"
  by (simp add: turn_def)

lemma turn_tools_disabled:
  "chat e (msgList st) = Ok raw \<Longrightarrow>
   turn e False cwd loopLimit st =
     Return \<lparr>response = Some (cleanup raw), error = None, resultFiles = filesModified st\<rparr>
            (st\<lparr>chatCalls := chatCalls st + 1\<rparr>)"
  by (simp add: turn_def)

lemma turn_refusal:
  "chat e (msgList st) = Ok raw \<Longrightarrow> isRefusal (trim (cleanup raw)) \<Longrightarrow>
   turn e True cwd loopLimit st =
     Continue (push2 (st\<lparr>chatCalls := chatCalls st + 1\<rparr>)
                 \<lparr>role = Assistant, content = cleanup raw\<rparr>
                 \<lparr>role = System, content = refusalNotice\<rparr>)"
  by (simp add: turn_def)

lemma turn_no_call:
  "chat e (msgList st) = Ok raw \<Longrightarrow> \<not> isRefusal (trim (cleanup raw)) \<Longrightarrow>
   \<not> isToolCall (parseToolCall e (trim (cleanup raw))) \<Longrightarrow>
   turn e True cwd loopLimit st =
     (if includesStr (cleanup raw) ''TASK_COMPLETED'' \<or> int (loops st) \<ge> int loopLimit - 1
      then Break (st\<lparr>chatCalls := chatCalls st + 1, finalContent := cleanup raw\<rparr>)
      else Continue (push2 (st\<lparr>chatCalls := chatCalls st + 1\<rparr>)
                       \<lparr>role = Assistant, content = cleanup raw\<rparr>
                       \<lparr>role = System, content = noToolNotice\<rparr>))"
  by (simp add: turn_def Let_def)

lemma agentLoop_turnBegins:
  "turnBegins e toolsEnabled cwd loopLimit st0 st \<Longrightarrow>
   agentLoop e toolsEnabled cwd loopLimit st0 = agentLoop e toolsEnabled cwd loopLimit st"
proof (induction rule: turnBegins.induct)
  case entered
  show ?case by simp
next
  case (continued st st')
  have "agentLoop e toolsEnabled cwd loopLimit st = agentLoop e toolsEnabled cwd loopLimit st'"
    using continued.hyps(2,3) by (simp add: agentLoop_turn)
  with continued.IH show ?case by simp
qed

lemma runAgentLoop_returned:
  "agentLoop e (allow_tools e \<or> forceTools) cwd loopLimit
     (initialAgent (initialMessages e (allow_tools e \<or> forceTools) agentRole taskPrompt contextData cwd))
     = (Some r, st) \<Longrightarrow>
   runAgentLoop e agentRole taskPrompt contextData loopLimit forceTools cwd = (r, st)"
  by (simp add: runAgentLoop_def Let_def)

section \<open>Facts about the parser\<close>

lemma jsonMatch_span:
  assumes "jsonMatch t = Some s"
  shows "\<exists>pre post. t = pre @ s @ post \<and> CHR ''{'' \<notin> set pre \<and> CHR ''}'' \<notin> set post
           \<and> hd s = CHR ''{'' \<and> last s = CHR ''}''"
proof -
  let ?pre = "takeWhile (\<lambda>c. c \<noteq> CHR ''{'') t"
  let ?r = "dropWhile (\<lambda>c. c \<noteq> CHR ''{'') t"
  let ?body = "rev (dropWhile (\<lambda>c. c \<noteq> CHR ''}'') (rev (tl ?r)))"
  let ?post = "rev (takeWhile (\<lambda>c. c \<noteq> CHR ''}'') (rev (tl ?r)))"
  from assms have r: "?r \<noteq> []" and b: "?body \<noteq> []" and s: "s = CHR ''{'' # ?body"
    by (auto simp: jsonMatch_def Let_def split: if_splits)
  have hr: "hd ?r = CHR ''{''"
    using r hd_dropWhile [of "\<lambda>c. c \<noteq> CHR ''{''" t] by auto
  then have r2: "?r = CHR ''{'' # tl ?r"
    using r by (cases ?r) auto
  have "rev (tl ?r) = takeWhile (\<lambda>c. c \<noteq> CHR ''}'') (rev (tl ?r)) @ dropWhile (\<lambda>c. c \<noteq> CHR ''}'') (rev (tl ?r))"
    by simp
  then have "rev (rev (tl ?r)) = ?body @ ?post"
    by (metis rev_append)
  then have tl: "tl ?r = ?body @ ?post" by simp
  have "t = ?pre @ ?r" by simp
  then have "t = ?pre @ (CHR ''{'' # tl ?r)" using r2 by simp
  then have t: "t = ?pre @ s @ ?post" using tl s by simp
  have p1: "CHR ''{'' \<notin> set ?pre"
    by (auto dest: set_takeWhileD)
  have p2: "CHR ''}'' \<notin> set ?post"
    by (auto dest: set_takeWhileD)
  have d: "dropWhile (\<lambda>c. c \<noteq> CHR ''}'') (rev (tl ?r)) \<noteq> []" using b by simp
  have "hd (dropWhile (\<lambda>c. c \<noteq> CHR ''}'') (rev (tl ?r))) = CHR ''}''"
    using d hd_dropWhile [of "\<lambda>c. c \<noteq> CHR ''}''" "rev (tl ?r)"] by auto
  then have "last ?body = CHR ''}''"
    using d by (simp add: last_rev)
  then have l: "last s = CHR ''}''" using s b by simp
  from t p1 p2 l s show ?thesis by (intro exI [of _ ?pre] exI [of _ ?post]) simp
qed

lemma parseToolCall_parse_fails:
  "jsonMatch t = Some s \<Longrightarrow> jsonParse e s = None \<Longrightarrow> parseToolCall e t = JNull"
  by (simp add: parseToolCall_def)

lemma isToolCall_JNull [simp]: "\<not> isToolCall JNull"
  by (simp add: isToolCall_def)

lemma jsonMatch_saveCallText: "jsonMatch saveCallText = Some saveCallText"
  by code_simp

lemma jsonMatch_altCallText: "jsonMatch altCallText = Some altCallText"
  by code_simp

lemma toolNameMatch_saveCallText: "toolNameMatch saveCallText = None"
  by code_simp

lemma interpret_primary:
  "interpretParsed t saveCallValue = Inr saveCallValue"
  by (simp add: interpretParsed_def saveCallValue_def bindE_def)

lemma interpret_secondary:
  "interpretParsed t altCallValue =
     Inr (JObj [(''tool'', JStr ''save_file''),
                (''args'', JObj [(''file_name'', JStr ''a.ts''), (''content'', JStr ''x'')])])"
  by (simp add: interpretParsed_def altCallValue_def bindE_def mapSaveFileArgs_def mapIfMissing_def
      toolCallObject_def)

lemma startsWith_functions: "startsWith ''functions.save_file'' ''functions.''"
  by simp

lemma interpret_fallback:
  "toolNameMatch t = Some ''functions.save_file'' \<Longrightarrow>
   interpretParsed t bareArgsValue =
     Inr (JObj [(''tool'', JStr ''save_file''),
                (''args'', JObj [(''path'', JStr ''a.ts''), (''data'', JStr ''x''),
                                 (''file_name'', JStr ''a.ts''), (''content'', JStr ''x'')])])"
  by (simp add: interpretParsed_def bareArgsValue_def bindE_def mapSaveFileArgs_def mapIfMissing_def
      toolCallObject_def startsWith_functions)

lemma saveFileTool_single:
  assumes "getOpt args ''files'' = JUndefined"
    and "orElse (orElse (getOpt args ''file_name'') (getOpt args ''name'')) (getOpt args ''path'') = JStr name"
    and "orElse (getOpt args ''content'') (getOpt args ''data'') = JStr body"
    and "name \<noteq> []" and "body \<noteq> []"
    and "validatePath (processCwd e) cwd name = Inr fpath" and "canMkdir e fpath" and "canWrite e fpath"
  shows "saveFileTool e cwd args st =
           (''Success: File saved to '' @ fpath, recordSave (addEvents st [Write fpath body]) name)"
  using assms by (simp add: saveFileTool_def Let_def validateAndWrite_def writeFile_def)

section \<open>The number of calls\<close>

lemma recordSave_chatCalls [simp]: "chatCalls (recordSave st name) = chatCalls st"
  by (simp add: recordSave_def)

lemma addEvents_chatCalls [simp]: "chatCalls (addEvents st events) = chatCalls st"
  by (simp add: addEvents_def)

lemma saveBatch_chatCalls: "chatCalls (fst (snd (saveBatch e cwd files st saved))) = chatCalls st"
proof (induction files arbitrary: st saved)
  case Nil
  then show ?case by simp
next
  case (Cons f fs)
  show ?case
    by (simp add: Cons.IH split: sum.split prod.split)
qed

lemma saveFileTool_chatCalls: "chatCalls (snd (saveFileTool e cwd args st)) = chatCalls st"
proof (cases "getOpt args ''files''")
  case (JArr files)
  obtain err st' saved where sb: "saveBatch e cwd files st [] = (err, st', saved)"
    by (cases "saveBatch e cwd files st []") auto
  have "chatCalls st' = chatCalls st"
    using saveBatch_chatCalls [of e cwd files st "[]"] sb by simp
  then show ?thesis
    using JArr sb by (cases err) (simp_all add: saveFileTool_def)
qed (simp_all add: saveFileTool_def Let_def split: sum.split prod.split)

lemma dispatch_chatCalls: "chatCalls (snd (dispatch e cwd toolCall st)) = chatCalls st"
  by (simp add: dispatch_def saveFileTool_chatCalls split: prod.split)

lemma push2_chatCalls [simp]: "chatCalls (push2 st m1 m2) = chatCalls st"
  by (simp add: push2_def)

lemma turn_chatCalls:
  "chatCalls (outcomeState (turn e toolsEnabled cwd loopLimit st)) = chatCalls st + 1"
proof (cases "chat e (msgList st)")
  case (Threw msg)
  then show ?thesis by (simp add: turn_def)
next
  case (NotOk status)
  then show ?thesis by (simp add: turn_def)
next
  case (Ok raw)
  let ?st = "st\<lparr>chatCalls := chatCalls st + 1\<rparr>"
  obtain res std where d: "dispatch e cwd (parseToolCall e (trim (cleanup raw))) ?st = (res, std)"
    by (cases "dispatch e cwd (parseToolCall e (trim (cleanup raw))) ?st") auto
  have "chatCalls std = chatCalls st + 1"
    using dispatch_chatCalls [of e cwd "parseToolCall e (trim (cleanup raw))" ?st] d by simp
  with Ok d show ?thesis
    by (simp add: turn_def Let_def)
qed

lemma agentLoop_chatCalls:
  "chatCalls (snd (agentLoop e toolsEnabled cwd loopLimit st)) \<le> chatCalls st + (loopLimit - loops st)"
proof (induction e toolsEnabled cwd loopLimit st rule: agentLoop.induct)
  case (1 e toolsEnabled cwd loopLimit st)
  show ?case
  proof (cases "loops st < loopLimit")
    case False
    then show ?thesis by (subst agentLoop.simps) simp
  next
    case True
    have c: "chatCalls (outcomeState (turn e toolsEnabled cwd loopLimit st)) = chatCalls st + 1"
      by (rule turn_chatCalls)
    show ?thesis
    proof (cases "turn e toolsEnabled cwd loopLimit st")
      case (Return r st')
      with True c show ?thesis by (subst agentLoop.simps) simp
    next
      case (Break st')
      with True c show ?thesis by (subst agentLoop.simps) simp
    next
      case (Continue st')
      have l: "loops st' = Suc (loops st)"
        using Continue by (rule turn_Continue_loops)
      have "chatCalls (snd (agentLoop e toolsEnabled cwd loopLimit st'))
              \<le> chatCalls st' + (loopLimit - loops st')"
        using "1.IH" [OF True Continue] .
      moreover have "agentLoop e toolsEnabled cwd loopLimit st = agentLoop e toolsEnabled cwd loopLimit st'"
        using True Continue by (subst agentLoop.simps) simp
      ultimately show ?thesis
        using c Continue l True by simp
    qed
  qed
qed

lemma recordExtract_chatCalls [simp]: "chatCalls (recordExtract st name) = chatCalls st"
  by (simp add: recordExtract_def)

lemma unpackItems_chatCalls: "chatCalls (fst (unpackItems e cwd items st n)) = chatCalls st"
proof (induction items arbitrary: st n)
  case Nil
  then show ?case by simp
next
  case (Cons item rest)
  show ?case
    by (simp add: Cons.IH split: sum.split prod.split)
qed

lemma unpackJson_chatCalls: "chatCalls (fst (unpackJson e cwd m st)) = chatCalls st"
proof (cases "jsonParse e (code m)")
  case None
  then show ?thesis by (simp add: unpackJson_def)
next
  case (Some parsed)
  show ?thesis
  proof (cases parsed)
    case (JArr items)
    obtain st' cnt where u: "unpackItems e cwd items st 0 = (st', cnt)"
      by (cases "unpackItems e cwd items st 0") auto
    have "chatCalls st' = chatCalls st"
      using unpackItems_chatCalls [of e cwd items st 0] u by simp
    then show ?thesis
      using Some JArr u by (cases cnt) (simp_all add: unpackJson_def)
  qed (simp_all add: Some unpackJson_def)
qed

lemma saveSingle_chatCalls: "chatCalls (saveSingle e cwd lang m st) = chatCalls st"
  by (simp add: saveSingle_def Let_def)

lemma extractBlock_chatCalls: "chatCalls (extractBlock e cwd st m) = chatCalls st"
proof -
  obtain st1 h where u: "unpackJson e cwd m st = (st1, h)"
    by (cases "unpackJson e cwd m st") auto
  have "chatCalls st1 = chatCalls st"
    using unpackJson_chatCalls [of e cwd m st] u by simp
  then show ?thesis
    using u by (simp add: extractBlock_def Let_def saveSingle_chatCalls)
qed

lemma foldl_extractBlock_chatCalls: "chatCalls (foldl (extractBlock e cwd) st ms) = chatCalls st"
  by (induction ms arbitrary: st) (simp_all add: extractBlock_chatCalls)

lemma logHistory_chatCalls: "chatCalls (logHistory e cwd taskPrompt st) = chatCalls st"
  by (simp add: logHistory_def Let_def)

lemma runAgentLoop_chatCalls:
  "chatCalls (snd (runAgentLoop e agentRole taskPrompt contextData loopLimit forceTools cwd)) \<le> loopLimit"
proof -
  let ?te = "allow_tools e \<or> forceTools"
  let ?st0 = "initialAgent (initialMessages e ?te agentRole taskPrompt contextData cwd)"
  obtain res st where a: "agentLoop e ?te cwd loopLimit ?st0 = (res, st)"
    by (cases "agentLoop e ?te cwd loopLimit ?st0") auto
  have "chatCalls st \<le> loopLimit"
    using agentLoop_chatCalls [of e ?te cwd loopLimit ?st0] a by (simp add: initialAgent_def)
  then show ?thesis
    using a
    by (cases res)
       (simp_all add: runAgentLoop_def Let_def logHistory_chatCalls autoSavePass_def
          foldl_extractBlock_chatCalls)
qed

section \<open>Facts about the extractor\<close>

lemma json_not_shell: "''json'' \<notin> set shellTags"
  by (simp add: shellTags_def)

lemma startsWith_length: "startsWith s p \<Longrightarrow> length p \<le> length s"
  by (induction s p rule: startsWith.induct) auto

lemma indexOf_bound: "indexOf s sub = Some k \<Longrightarrow> k + length sub \<le> length s"
proof (induction s arbitrary: k)
  case Nil
  then show ?case by (simp split: if_splits)
next
  case (Cons c cs)
  show ?case
  proof (cases "startsWith (c # cs) sub")
    case True
    with Cons.prems startsWith_length [OF True] show ?thesis by simp
  next
    case False
    with Cons.prems obtain j where j: "indexOf cs sub = Some j" and k: "k = Suc j"
      by (auto split: option.splits)
    from Cons.IH [OF j] k show ?thesis by simp
  qed
qed

lemma blockAt_length:
  assumes "blockAt s = Some (n, lg, c)"
  shows "n \<le> length s"
proof -
  let ?r1 = "dropWhile isSpace (drop 3 s)"
  let ?r2 = "dropWhile isSpace (drop (length (takeWhile isWord ?r1)) ?r1)"
  from assms obtain k where k: "indexOf ?r2 ''```'' = Some k" and n: "n = length s - length ?r2 + k + 3"
    by (auto simp: blockAt_def Let_def split: if_splits option.splits)
  have "length ?r2 \<le> length (drop (length (takeWhile isWord ?r1)) ?r1)"
    by (rule length_dropWhile_le)
  also have "\<dots> \<le> length ?r1" by simp
  also have "\<dots> \<le> length (drop 3 s)" by (rule length_dropWhile_le)
  also have "\<dots> \<le> length s" by simp
  finally have a: "length ?r2 \<le> length s" .
  from indexOf_bound [OF k] have "k + 3 \<le> length ?r2" by simp
  with a n show ?thesis by simp
qed

lemma scanBlocks_index:
  "m \<in> set (scanBlocks off s) \<Longrightarrow> off \<le> index m \<and> index m \<le> off + length s"
proof (induction off s rule: scanBlocks.induct)
  case (1 off s)
  show ?case
  proof (cases "s = []")
    case True
    with "1.prems" show ?thesis by (subst (asm) scanBlocks.simps) simp
  next
    case False
    show ?thesis
    proof (cases "blockAt s")
      case None
      with False "1.prems" have "m \<in> set (scanBlocks (off + 1) (tl s))"
        by (subst (asm) scanBlocks.simps) simp
      from "1.IH"(1) [OF False None this] False show ?thesis
        by (cases s) auto
    next
      case (Some a)
      obtain n lg c where a: "a = (n, lg, c)" by (cases a)
      from False Some a "1.prems"
      have "m = \<lparr>index = off, fullBlock = take n s, langGroup = lg, code = c\<rparr>
            \<or> m \<in> set (scanBlocks (off + n) (drop n s))"
        by (subst (asm) scanBlocks.simps) simp
      then show ?thesis
      proof
        assume "m = \<lparr>index = off, fullBlock = take n s, langGroup = lg, code = c\<rparr>"
        then show ?thesis by simp
      next
        assume "m \<in> set (scanBlocks (off + n) (drop n s))"
        from "1.IH"(2) [OF False Some a [symmetric] refl this]
          blockAt_length [OF Some [unfolded a]] show ?thesis
          by auto
      qed
    qed
  qed
qed

lemma scanBlocks_sorted: "sorted (map index (scanBlocks off s))"
proof (induction off s rule: scanBlocks.induct)
  case (1 off s)
  show ?case
  proof (cases "s = []")
    case True
    then show ?thesis by (subst scanBlocks.simps) simp
  next
    case False
    show ?thesis
    proof (cases "blockAt s")
      case None
      with False "1.IH"(1) [OF False None] show ?thesis by (subst scanBlocks.simps) simp
    next
      case (Some a)
      obtain n lg c where a: "a = (n, lg, c)" by (cases a)
      have "sorted (map index (scanBlocks (off + n) (drop n s)))"
        using "1.IH"(2) [OF False Some a [symmetric] refl] .
      moreover have "\<forall>m \<in> set (scanBlocks (off + n) (drop n s)). off \<le> index m"
        using scanBlocks_index by fastforce
      ultimately show ?thesis
        using False Some a by (subst scanBlocks.simps) simp
    qed
  qed
qed

lemma matchAll_sorted: "sorted (map index (matchAll t))"
  by (simp add: matchAll_def scanBlocks_sorted)

lemma matchAll_index: "m \<in> set (matchAll t) \<Longrightarrow> index m \<le> length t"
  using scanBlocks_index [of m 0 t] by (simp add: matchAll_def)


lemma agreesUpTo_take:
  assumes "agreesUpTo t k st" and "i \<le> k"
  shows "take i (finalContent st) = take i t"
proof -
  have "take i (finalContent st) = take i (take k (finalContent st))"
    using assms(2) by (simp add: min_def)
  also have "\<dots> = take i (take k t)"
    using assms(1) by (simp add: agreesUpTo_def)
  also have "\<dots> = take i t"
    using assms(2) by (simp add: min_def)
  finally show ?thesis .
qed

lemma agreesUpTo_same:
  assumes "agreesUpTo t k st" and "i \<le> k" and "finalContent st' = finalContent st"
  shows "agreesUpTo t i st'"
  using assms agreesUpTo_take [OF assms(1,2)] by (simp add: agreesUpTo_def)

lemma agreesUpTo_replace:
  assumes "agreesUpTo t k st" and "i \<le> k"
    and "finalContent st' = replaceSpan (finalContent st) i n r"
  shows "agreesUpTo t i st'"
proof -
  have l: "i \<le> length (finalContent st)"
    using assms(1,2) by (simp add: agreesUpTo_def)
  then have "take i (finalContent st') = take i (finalContent st)"
    using assms(3) by (simp add: replaceSpan_def)
  moreover have "i \<le> length (finalContent st')"
    using assms(3) l by (simp add: replaceSpan_def)
  ultimately show ?thesis
    using agreesUpTo_take [OF assms(1,2)] by (simp add: agreesUpTo_def)
qed

lemma inferFileName_agrees:
  assumes "agreesUpTo t k st" and "i \<le> k"
  shows "inferFileName (finalContent st) i body = inferFileName t i body"
  using agreesUpTo_take [OF assms] by (simp add: inferFileName_def)

lemma eventsOn_append [simp]: "eventsOn fp (xs @ ys) = eventsOn fp xs @ eventsOn fp ys"
  by (simp add: eventsOn_def)

lemma eventsOn_Write [simp]: "eventsOn fp [Write q txt] = (if q = fp then [Write q txt] else [])"
  by (simp add: eventsOn_def)

lemma validateAndWrite_strings:
  "validateAndWrite e cwd (JStr n) (JStr body) =
     (if canMkdir e (resolve (processCwd e) [cwd, n]) \<and> canWrite e (resolve (processCwd e) [cwd, n])
         \<and> validatePath (processCwd e) cwd n = Inr (resolve (processCwd e) [cwd, n])
      then ([Write (resolve (processCwd e) [cwd, n]) body], Inr (resolve (processCwd e) [cwd, n], n))
      else ([], Inl (case validatePath (processCwd e) cwd n of Inl err \<Rightarrow> err | Inr fpath \<Rightarrow> IOError)))"
proof (cases "validatePath (processCwd e) cwd n")
  case (Inl err)
  then show ?thesis by (simp add: validateAndWrite_def)
next
  case (Inr fpath)
  then have "fpath = resolve (processCwd e) [cwd, n]"
    by (auto simp: validatePath_def Let_def split: if_splits)
  with Inr show ?thesis by (simp add: validateAndWrite_def writeFile_def)
qed

lemma chunksWritten_strings: "chunksWritten e (map JStr parts) = (concat parts, True)"
  by (induction parts) (simp_all add: chunkText_def)

lemma saveFileTool_chunks:
  assumes "getOpt args ''files'' = JUndefined"
    and "orElse (orElse (getOpt args ''file_name'') (getOpt args ''name'')) (getOpt args ''path'') = JStr name"
    and "orElse (getOpt args ''content'') (getOpt args ''data'') = JArr (map JStr parts)"
    and "name \<noteq> []"
    and "validatePath (processCwd e) cwd name = Inr fpath" and "canMkdir e fpath" and "canWrite e fpath"
  shows "saveFileTool e cwd args st =
           (''Success: File saved to '' @ fpath,
            recordSave (addEvents st [Write fpath (concat parts)]) name)"
  using assms
  by (simp add: saveFileTool_def Let_def validateAndWrite_def writeFile_def chunksWritten_strings)

lemma isTruthyString_JStr: "isTruthyString v \<Longrightarrow> \<exists>n. v = JStr n"
  by (cases v) auto

lemma unpackItems_frame:
  assumes "\<forall>item \<in> set items. \<forall>n c. itemTarget item = Inr (JStr n, c) \<longrightarrow>
             n \<noteq> p \<and> resolve (processCwd e) [cwd, n] \<noteq> fp"
  shows "eventsOn fp (fsLog (fst (unpackItems e cwd items st k))) = eventsOn fp (fsLog st)
       \<and> (p \<in> processedFiles (fst (unpackItems e cwd items st k)) \<longleftrightarrow> p \<in> processedFiles st)
       \<and> finalContent (fst (unpackItems e cwd items st k)) = finalContent st"
  using assms
proof (induction items arbitrary: st k)
  case Nil
  then show ?case by simp
next
  case (Cons item rest)
  have rest: "\<forall>item \<in> set rest. \<forall>n c. itemTarget item = Inr (JStr n, c) \<longrightarrow>
             n \<noteq> p \<and> resolve (processCwd e) [cwd, n] \<noteq> fp"
    using Cons.prems by simp
  note IH = Cons.IH [OF rest]
  show ?case
  proof (cases "itemTarget item")
    case (Inl err)
    then show ?thesis by simp
  next
    case (Inr target)
    obtain fName fContent where target: "target = (fName, fContent)" by (cases target)
    show ?thesis
    proof (cases "isTruthyString fName \<and> isTruthyString fContent")
      case False
      with Inr target IH [of st k] show ?thesis by auto
    next
      case True
      then obtain n body where n: "fName = JStr n" and b: "fContent = JStr body"
        using isTruthyString_JStr by blast
      from Cons.prems Inr target n
      have avoid: "n \<noteq> p" "resolve (processCwd e) [cwd, n] \<noteq> fp" by auto
      let ?fpath = "resolve (processCwd e) [cwd, n]"
      let ?st = "recordExtract (addEvents st [Write ?fpath body]) n"
      have a: "eventsOn fp (fsLog ?st) = eventsOn fp (fsLog st)"
        using avoid by (simp add: recordExtract_def addEvents_def)
      have b': "p \<in> processedFiles ?st \<longleftrightarrow> p \<in> processedFiles st"
        using avoid by (auto simp: recordExtract_def addEvents_def)
      have c: "finalContent ?st = finalContent st"
        by (simp add: recordExtract_def addEvents_def)
      have "unpackItems e cwd (item # rest) st k =
              (if canMkdir e ?fpath \<and> canWrite e ?fpath \<and> validatePath (processCwd e) cwd n = Inr ?fpath
               then unpackItems e cwd rest ?st (k + 1) else (addEvents st [], None))"
        using Inr target True n b by (simp add: validateAndWrite_strings)
      with IH [of ?st "k + 1"] a b' c show ?thesis by (simp add: addEvents_def)
    qed
  qed
qed

lemma unpackItems_count:
  "snd (unpackItems e cwd items st k) = snd (unpackItems e cwd items st' k)"
proof (induction items arbitrary: st st' k)
  case Nil
  then show ?case by simp
next
  case (Cons item rest)
  show ?case
    by (auto split: sum.split prod.split intro: Cons.IH)
qed


lemma unpackJson_handled: "snd (unpackJson e cwd m st) = snd (unpackJson e cwd m st')"
proof (cases "jsonParse e (code m)")
  case None
  then show ?thesis by (simp add: unpackJson_def)
next
  case (Some parsed)
  show ?thesis
  proof (cases parsed)
    case (JArr items)
    obtain s1 c1 where u1: "unpackItems e cwd items st 0 = (s1, c1)"
      by (cases "unpackItems e cwd items st 0") auto
    obtain s2 c2 where u2: "unpackItems e cwd items st' 0 = (s2, c2)"
      by (cases "unpackItems e cwd items st' 0") auto
    have "c1 = c2"
      using unpackItems_count [of e cwd items st 0 st'] u1 u2 by simp
    then show ?thesis
      using Some JArr u1 u2 by (cases c2) (simp_all add: unpackJson_def)
  qed (simp_all add: Some unpackJson_def)
qed

lemma unpackJson_frame:
  assumes "blockLang m = ''json''"
    and "\<forall>n \<in> set (batchNames e m). n \<noteq> p \<and> resolve (processCwd e) [cwd, n] \<noteq> fp"
    and "unpackJson e cwd m st = (st1, h)"
  shows "eventsOn fp (fsLog st1) = eventsOn fp (fsLog st)
       \<and> (p \<in> processedFiles st1 \<longleftrightarrow> p \<in> processedFiles st)
       \<and> (if h then \<exists>r. finalContent st1 = replaceSpan (finalContent st) (index m) (length (fullBlock m)) r
           else finalContent st1 = finalContent st)"
proof (cases "jsonParse e (code m)")
  case None
  with assms(3) show ?thesis by (auto simp: unpackJson_def)
next
  case (Some parsed)
  show ?thesis
  proof (cases parsed)
    case (JArr items)
    have names: "batchNames e m =
        concat (map (\<lambda>item. case itemTarget item of Inr (JStr n, c) \<Rightarrow> [n] | _ \<Rightarrow> []) items)"
      using assms(1) Some JArr by (simp add: batchNames_def)
    have avoid: "\<forall>item \<in> set items. \<forall>n c. itemTarget item = Inr (JStr n, c) \<longrightarrow>
             n \<noteq> p \<and> resolve (processCwd e) [cwd, n] \<noteq> fp"
    proof (intro ballI allI impI)
      fix item n c
      assume i: "item \<in> set items" and tg: "itemTarget item = Inr (JStr n, c)"
      then have "n \<in> set (batchNames e m)"
        unfolding names by (auto intro!: bexI [of _ item])
      with assms(2) show "n \<noteq> p \<and> resolve (processCwd e) [cwd, n] \<noteq> fp" by blast
    qed
    obtain s1 cnt where u: "unpackItems e cwd items st 0 = (s1, cnt)"
      by (cases "unpackItems e cwd items st 0") auto
    from unpackItems_frame [OF avoid, of st 0] u
    have f: "eventsOn fp (fsLog s1) = eventsOn fp (fsLog st)"
      "p \<in> processedFiles s1 \<longleftrightarrow> p \<in> processedFiles st"
      "finalContent s1 = finalContent st"
      by simp_all
    show ?thesis
    proof (cases cnt)
      case None
      with assms(3) Some JArr u f show ?thesis by (auto simp: unpackJson_def)
    next
      case (Some extractedCount)
      with assms(3) \<open>jsonParse e (code m) = Some parsed\<close> JArr u f show ?thesis
        by (cases "extractedCount > 0") (auto simp: unpackJson_def)
    qed
  qed (use assms(3) Some in \<open>auto simp: unpackJson_def\<close>)
qed

text \<open>What one round of the loop over the blocks does to the file \<open>fp = join cwd p\<close>.\<close>

lemma extractBlock_step:
  assumes agree: "agreesUpTo t k st" and le: "index m \<le> k"
    and fp: "fp = join cwd p" and p: "p \<noteq> []"
    and io: "canMkdir e fp" "canWrite e fp"
    and batch: "\<forall>n \<in> set (batchNames e m). n \<noteq> p \<and> resolve (processCwd e) [cwd, n] \<noteq> fp"
    and others: "reachesSingle e cwd m \<and> inferFileName t (index m) (code m) \<noteq> p \<longrightarrow>
                  join cwd (inferFileName t (index m) (code m)) \<noteq> fp"
  shows "agreesUpTo t (index m) (extractBlock e cwd st m)
       \<and> (if reachesSingle e cwd m \<and> inferFileName t (index m) (code m) = p \<and> p \<notin> processedFiles st
          then eventsOn fp (fsLog (extractBlock e cwd st m)) = eventsOn fp (fsLog st) @ [Write fp (code m)]
               \<and> p \<in> processedFiles (extractBlock e cwd st m)
          else eventsOn fp (fsLog (extractBlock e cwd st m)) = eventsOn fp (fsLog st)
               \<and> (p \<in> processedFiles (extractBlock e cwd st m) \<longleftrightarrow> p \<in> processedFiles st))"
proof -
  let ?q = "inferFileName t (index m) (code m)"
  obtain st1 h where u: "(if blockLang m = ''json'' then unpackJson e cwd m st else (st, False)) = (st1, h)"
    by (cases "if blockLang m = ''json'' then unpackJson e cwd m st else (st, False)") auto
  have h: "h = handledAsBatch e cwd m"
  proof (cases "blockLang m = ''json''")
    case True
    with u unpackJson_handled [of e cwd m st "initialAgent []"] show ?thesis
      by (simp add: handledAsBatch_def)
  next
    case False
    with u show ?thesis by (simp add: handledAsBatch_def)
  qed
  have frame: "eventsOn fp (fsLog st1) = eventsOn fp (fsLog st)
       \<and> (p \<in> processedFiles st1 \<longleftrightarrow> p \<in> processedFiles st)
       \<and> (if h then \<exists>r. finalContent st1 = replaceSpan (finalContent st) (index m) (length (fullBlock m)) r
           else finalContent st1 = finalContent st)"
  proof (cases "blockLang m = ''json''")
    case True
    with u have "unpackJson e cwd m st = (st1, h)" by simp
    from unpackJson_frame [OF True batch this] show ?thesis .
  next
    case False
    with u show ?thesis by auto
  qed
  have ex: "extractBlock e cwd st m =
      (if reachesSingle e cwd m then saveSingle e cwd (blockLang m) m st1 else st1)"
    using u h by (simp add: extractBlock_def blockLang_def reachesSingle_def Let_def)
  show ?thesis
  proof (cases "reachesSingle e cwd m")
    case False
    have "agreesUpTo t (index m) st1"
    proof (cases h)
      case True
      with frame obtain r where
        "finalContent st1 = replaceSpan (finalContent st) (index m) (length (fullBlock m)) r"
        by auto
      from agreesUpTo_replace [OF agree le this] show ?thesis .
    next
      case False
      with frame have "finalContent st1 = finalContent st" by simp
      from agreesUpTo_same [OF agree le this] show ?thesis .
    qed
    with False ex frame show ?thesis by simp
  next
    case True
    then have "\<not> h" using h by (simp add: reachesSingle_def)
    with frame have same: "finalContent st1 = finalContent st" by simp
    have a1: "agreesUpTo t (index m) st1"
      using agreesUpTo_same [OF agree le same] .
    have name: "inferFileName (finalContent st1) (index m) (code m) = ?q"
      using inferFileName_agrees [OF a1, of "index m"] by simp
    let ?written = "(recordExtract (addEvents st1 [Write (join cwd ?q) (code m)]) ?q)
                \<lparr>finalContent := replaceSpan (finalContent st1) (index m) (length (fullBlock m))
                                   (savedNotice ?q)\<rparr>"
    have a2: "agreesUpTo t (index m) ?written"
      by (rule agreesUpTo_replace [OF a1, of "index m"]) simp_all
    have s: "saveSingle e cwd (blockLang m) m st1 =
        (if ?q = [] \<or> ?q \<in> processedFiles st1 \<or> \<not> (canMkdir e (join cwd ?q) \<and> canWrite e (join cwd ?q))
         then st1 else ?written)"
      by (simp add: saveSingle_def Let_def name)
    show ?thesis
    proof (cases "?q = p")
      case qp: True
      show ?thesis
      proof (cases "p \<in> processedFiles st")
        case True
        with qp s ex \<open>reachesSingle e cwd m\<close> frame a1 show ?thesis by simp
      next
        case False
        with qp s ex \<open>reachesSingle e cwd m\<close> frame a2 fp p io show ?thesis
          by (simp add: recordExtract_def addEvents_def)
      qed
    next
      case False
      with others True have other: "join cwd ?q \<noteq> fp" by simp
      show ?thesis
      proof (cases "?q = [] \<or> ?q \<in> processedFiles st1 \<or> \<not> (canMkdir e (join cwd ?q) \<and> canWrite e (join cwd ?q))")
        case True
        with s ex \<open>reachesSingle e cwd m\<close> frame a1 \<open>?q \<noteq> p\<close> show ?thesis by simp
      next
        case False
        with s ex \<open>reachesSingle e cwd m\<close> frame a2 \<open>?q \<noteq> p\<close> other show ?thesis
          by (auto simp: recordExtract_def addEvents_def)
      qed
    qed
  qed
qed


lemma foldl_extractBlock_events:
  assumes fp: "fp = join cwd p" and p: "p \<noteq> []" and io: "canMkdir e fp" "canWrite e fp"
  shows "sorted (map index (rev bs)) \<Longrightarrow> \<forall>m \<in> set bs. index m \<le> k \<Longrightarrow> agreesUpTo t k st \<Longrightarrow>
     \<forall>m \<in> set bs. \<forall>n \<in> set (batchNames e m). n \<noteq> p \<and> resolve (processCwd e) [cwd, n] \<noteq> fp \<Longrightarrow>
     \<forall>m \<in> set bs. reachesSingle e cwd m \<and> inferFileName t (index m) (code m) \<noteq> p \<longrightarrow>
        join cwd (inferFileName t (index m) (code m)) \<noteq> fp \<Longrightarrow>
     eventsOn fp (fsLog (foldl (extractBlock e cwd) st bs)) =
       eventsOn fp (fsLog st) @
         (if p \<in> processedFiles st then []
          else (case filter (\<lambda>m. reachesSingle e cwd m \<and> inferFileName t (index m) (code m) = p) bs of
                  [] \<Rightarrow> [] | m # ms \<Rightarrow> [Write fp (code m)]))"
proof (induction bs arbitrary: st k)
  case Nil
  then show ?case by simp
next
  case (Cons b rest)
  let ?sel = "\<lambda>m. reachesSingle e cwd m \<and> inferFileName t (index m) (code m) = p"
  let ?st = "extractBlock e cwd st b"
  have srt: "sorted (map index (rev rest))" and below: "\<forall>m \<in> set rest. index m \<le> index b"
    using Cons.prems(1) by (auto simp: sorted_append)
  have le: "index b \<le> k" using Cons.prems(2) by simp
  have batch: "\<forall>n \<in> set (batchNames e b). n \<noteq> p \<and> resolve (processCwd e) [cwd, n] \<noteq> fp"
    using Cons.prems(4) by simp
  have others: "reachesSingle e cwd b \<and> inferFileName t (index b) (code b) \<noteq> p \<longrightarrow>
        join cwd (inferFileName t (index b) (code b)) \<noteq> fp"
    using Cons.prems(5) by simp
  note step = extractBlock_step [OF Cons.prems(3) le fp p io batch others]
  have agree: "agreesUpTo t (index b) ?st" using step by simp
  have IH: "eventsOn fp (fsLog (foldl (extractBlock e cwd) ?st rest)) =
       eventsOn fp (fsLog ?st) @
         (if p \<in> processedFiles ?st then []
          else (case filter ?sel rest of [] \<Rightarrow> [] | m # ms \<Rightarrow> [Write fp (code m)]))"
    using Cons.IH [OF srt below agree] Cons.prems(4,5) by simp
  show ?case
  proof (cases "?sel b \<and> p \<notin> processedFiles st")
    case True
    with step have "eventsOn fp (fsLog ?st) = eventsOn fp (fsLog st) @ [Write fp (code b)]"
      and "p \<in> processedFiles ?st" by simp_all
    with IH True show ?thesis by simp
  next
    case False
    with step have ev: "eventsOn fp (fsLog ?st) = eventsOn fp (fsLog st)"
      and pr: "p \<in> processedFiles ?st \<longleftrightarrow> p \<in> processedFiles st" by auto
    show ?thesis
    proof (cases "p \<in> processedFiles st")
      case True
      with IH ev pr show ?thesis by simp
    next
      case np: False
      with False have nb: "\<not> ?sel b" by simp
      then have "filter ?sel (b # rest) = filter ?sel rest" by simp
      with IH ev pr np show ?thesis by (simp del: filter.simps)
    qed
  qed
qed

lemma hd_rev_filter: "filter P xs \<noteq> [] \<Longrightarrow>
    (case filter P (rev xs) of [] \<Rightarrow> [] | m # ms \<Rightarrow> [f m]) = [f (last (filter P xs))]"
proof -
  assume ne: "filter P xs \<noteq> []"
  have r: "filter P (rev xs) = rev (filter P xs)" by (simp add: rev_filter)
  from ne obtain ys y where "filter P xs = ys @ [y]"
    by (cases "filter P xs" rule: rev_cases) auto
  with r show ?thesis by simp
qed

section \<open>The claims\<close>

text \<open>
  C1 does not hold of the code. The single-file path of the extractor joins the inferred
  name to the working directory and writes, without \<open>validatePath\<close>: in the run below
  the reply names \<open>../evil.py\<close>, which \<open>validatePath\<close> refuses, and the first write of
  the run goes to \<open>/evil.py\<close>, outside \<open>/ws\<close>. The last conjunct is a second way
  out: \<open>validatePath\<close> compares prefixes of the text, so the sibling directory
  \<open>/ws-old\<close> passes for \<open>/ws\<close> in a \<open>save_file\<close> call.
\<close>

theorem C1_single_file_path_escapes_workspace:
  "validatePath ''/'' ''/ws'' ''../evil.py'' = Inl (AccessDenied ''../evil.py'')
   \<and> (case runAgentLoop (sampleEnv True (\<lambda>msgs. Ok escapeReply) sampleParse)
              ''coder'' ''t'' ''c'' 8 False ''/ws'' of
          (r, st) \<Rightarrow> (resultFiles r, take 1 (fsLog st))) =
         ([''../evil.py''], [Write ''/evil.py'' escapeBody])
   \<and> fsLog (snd (dispatch (sampleEnv True (\<lambda>msgs. Ok escapeReply) sampleParse) ''/ws'' siblingCall
             (initialAgent []))) = [Write ''/ws-old/x.txt'' ''x'']"
  by code_simp

text \<open>
  C2, as stated, fails on a reply that refuses and calls no tool: the refusal check comes
  before the parser and before the last-turn branch, so on the last allowed turn the reply
  is answered with the corrective message, the turn counter is incremented and the loop
  is left by its condition with the final text still empty. The run returns, but its
  \<open>response\<close> is the empty string and not the reply.
\<close>

theorem C2_refusal_on_last_turn_not_final_text:
  "isRefusal (trim (cleanup refusingReply))
   \<and> \<not> isToolCall (parseToolCall (sampleEnv True (\<lambda>msgs. Ok refusingReply) sampleParse)
                      (trim (cleanup refusingReply)))
   \<and> (case runAgentLoop (sampleEnv True (\<lambda>msgs. Ok refusingReply) sampleParse)
              ''coder'' ''t'' ''c'' 1 False ''/ws'' of
          (r, st) \<Rightarrow> (response r, chatCalls st, loops st, finalContent st, cleanup refusingReply)) =
         (Some [], 1, 1, [], ''As an AI I cannot run tools.'')
   \<and> (case runAgentLoop (sampleEnv True (\<lambda>msgs. Ok refusingReply) sampleParse)
              ''coder'' ''t'' ''c'' 3 False ''/ws'' of
          (r, st) \<Rightarrow> (response r, chatCalls st, loops st, finalContent st)) =
         (Some [], 3, 3, [])
   \<and> agentLoop (sampleEnv True (\<lambda>msgs. Ok refusingReply) sampleParse) True ''/ws'' 3
        ((initialAgent [])\<lparr>loops := 2\<rparr>) =
       (None, (initialAgent [])\<lparr>loops := 3, chatCalls := 1,
                 msgList := [\<lparr>role = Assistant, content = ''As an AI I cannot run tools.''\<rparr>,
                             \<lparr>role = System, content = refusalNotice\<rparr>]\<rparr>)"
  by code_simp

text \<open>
  C2, amended. Every run returns a result, having made at most \<open>loopLimit\<close>
  chat-completion calls (one per iteration of the loop), whatever the endpoint replies. On
  the last allowed turn (\<open>loops = loopLimit - 1\<close>) a reply with no refusal phrase and no
  tool call is taken as the final text and the loop is left, with or without the
  completion marker; a reply with a refusal phrase is answered with the corrective
  message and the loop is left with the final text unchanged.
\<close>

theorem C2_loop_within_turn_limit:
  "(\<exists>r st'. runAgentLoop e agentRole taskPrompt contextData loopLimit forceTools cwd = (r, st')
        \<and> chatCalls st' \<le> loopLimit)
   \<and> (\<forall>st raw. loops st + 1 = loopLimit \<and> chat e (msgList st) = Ok raw
         \<and> \<not> isRefusal (trim (cleanup raw))
         \<and> \<not> isToolCall (parseToolCall e (trim (cleanup raw)))
         \<longrightarrow> agentLoop e True cwd loopLimit st =
               (None, st\<lparr>chatCalls := chatCalls st + 1, finalContent := cleanup raw\<rparr>))
   \<and> (\<forall>st raw. loops st + 1 = loopLimit \<and> chat e (msgList st) = Ok raw
         \<and> isRefusal (trim (cleanup raw))
         \<longrightarrow> agentLoop e True cwd loopLimit st =
               (None, st\<lparr>chatCalls := chatCalls st + 1,
                         msgList := msgList st @ [\<lparr>role = Assistant, content = cleanup raw\<rparr>,
                                                  \<lparr>role = System, content = refusalNotice\<rparr>],
                         loops := loopLimit\<rparr>))"
proof -
  have a: "\<exists>r st'. runAgentLoop e agentRole taskPrompt contextData loopLimit forceTools cwd = (r, st')
        \<and> chatCalls st' \<le> loopLimit"
    using runAgentLoop_chatCalls [of e agentRole taskPrompt contextData loopLimit forceTools cwd]
    by (cases "runAgentLoop e agentRole taskPrompt contextData loopLimit forceTools cwd") simp
  have b: "agentLoop e True cwd loopLimit st =
               (None, st\<lparr>chatCalls := chatCalls st + 1, finalContent := cleanup raw\<rparr>)"
    if "loops st + 1 = loopLimit" "chat e (msgList st) = Ok raw"
       "\<not> isRefusal (trim (cleanup raw))" "\<not> isToolCall (parseToolCall e (trim (cleanup raw)))"
    for st raw
  proof -
    have "loops st < loopLimit" using that(1) by simp
    then have "agentLoop e True cwd loopLimit st =
          (case turn e True cwd loopLimit st of
             Return r st' \<Rightarrow> (Some r, st')
           | Break st' \<Rightarrow> (None, st')
           | Continue st' \<Rightarrow> agentLoop e True cwd loopLimit st')"
      by (subst agentLoop.simps) simp
    moreover have "int (loops st) \<ge> int loopLimit - 1" using that(1) by simp
    ultimately show ?thesis
      using turn_no_call [OF that(2,3,4), of cwd loopLimit] by simp
  qed
  have c: "agentLoop e True cwd loopLimit st =
               (None, st\<lparr>chatCalls := chatCalls st + 1,
                         msgList := msgList st @ [\<lparr>role = Assistant, content = cleanup raw\<rparr>,
                                                  \<lparr>role = System, content = refusalNotice\<rparr>],
                         loops := loopLimit\<rparr>)"
    if "loops st + 1 = loopLimit" "chat e (msgList st) = Ok raw" "isRefusal (trim (cleanup raw))"
    for st raw
  proof -
    let ?st' = "push2 (st\<lparr>chatCalls := chatCalls st + 1\<rparr>)
                 \<lparr>role = Assistant, content = cleanup raw\<rparr>
                 \<lparr>role = System, content = refusalNotice\<rparr>"
    have "loops st < loopLimit" using that(1) by simp
    then have "agentLoop e True cwd loopLimit st = agentLoop e True cwd loopLimit ?st'"
      using turn_refusal [OF that(2,3), of cwd loopLimit] by (simp add: agentLoop_turn)
    moreover have "\<not> loops ?st' < loopLimit" using that(1) by (simp add: push2_def)
    ultimately have "agentLoop e True cwd loopLimit st = (None, ?st')"
      by (simp add: agentLoop_exhausted)
    then show ?thesis using that(1) by (simp add: push2_def)
  qed
  from a b c show ?thesis by blast
qed

theorem C2_loop_within_turn_limit_witness:
  "chatCalls (snd (runAgentLoop (sampleEnv True (\<lambda>msgs. Ok stallingReply) sampleParse)
      ''coder'' ''t'' ''c'' 3 False ''/ws'')) = 3
   \<and> response (fst (runAgentLoop (sampleEnv True (\<lambda>msgs. Ok stallingReply) sampleParse)
      ''coder'' ''t'' ''c'' 3 False ''/ws'')) = Some stallingReply
   \<and> agentLoop (sampleEnv True (\<lambda>msgs. Ok stallingReply) sampleParse) True ''/ws'' 3
        ((initialAgent [])\<lparr>loops := 2\<rparr>) =
       (None, (initialAgent [])\<lparr>loops := 2, chatCalls := 1, finalContent := stallingReply\<rparr>)
   \<and> agentLoop (sampleEnv True (\<lambda>msgs. Ok doneRefusingReply) sampleParse) True ''/ws'' 3
        ((initialAgent [])\<lparr>loops := 2\<rparr>) =
       (None, (initialAgent [])\<lparr>loops := 3, chatCalls := 1,
                 msgList := [\<lparr>role = Assistant, content = doneRefusingReply\<rparr>,
                             \<lparr>role = System, content = refusalNotice\<rparr>]\<rparr>)"
proof -
  let ?e = "sampleEnv True (\<lambda>msgs. Ok stallingReply) sampleParse"
  let ?e' = "sampleEnv True (\<lambda>msgs. Ok doneRefusingReply) sampleParse"
  let ?st = "(initialAgent [])\<lparr>loops := 2\<rparr>"
  have c: "chat ?e (msgList ?st) = Ok stallingReply" by (simp add: sampleEnv_def)
  have cl: "cleanup stallingReply = stallingReply" by code_simp
  have l: "loops ?st + 1 = 3" by (simp add: initialAgent_def)
  have r: "\<not> isRefusal (trim (cleanup stallingReply))" by code_simp
  have p: "\<not> isToolCall (parseToolCall ?e (trim (cleanup stallingReply)))" by code_simp
  have n: "chatCalls (snd (runAgentLoop ?e ''coder'' ''t'' ''c'' 3 False ''/ws'')) = 3"
    by code_simp
  have f: "response (fst (runAgentLoop ?e ''coder'' ''t'' ''c'' 3 False ''/ws'')) = Some stallingReply"
    by code_simp
  have c': "chat ?e' (msgList ?st) = Ok doneRefusingReply" by (simp add: sampleEnv_def)
  have cl': "cleanup doneRefusingReply = doneRefusingReply" by code_simp
  have r': "isRefusal (trim (cleanup doneRefusingReply))" by code_simp
  have "agentLoop ?e True ''/ws'' 3 ?st =
       (None, ?st\<lparr>chatCalls := chatCalls ?st + 1, finalContent := cleanup stallingReply\<rparr>)"
    using C2_loop_within_turn_limit [of ?e "''coder''" "''t''" "''c''" 3 False "''/ws''"] l c r p
    by blast
  moreover have "agentLoop ?e' True ''/ws'' 3 ?st =
       (None, ?st\<lparr>chatCalls := chatCalls ?st + 1,
                  msgList := msgList ?st @ [\<lparr>role = Assistant, content = cleanup doneRefusingReply\<rparr>,
                                            \<lparr>role = System, content = refusalNotice\<rparr>],
                  loops := 3\<rparr>)"
    using C2_loop_within_turn_limit [of ?e' "''coder''" "''t''" "''c''" 3 False "''/ws''"] l c' r'
    by blast
  ultimately show ?thesis using n f cl cl' by (simp add: initialAgent_def)
qed

text \<open>
  C3, as stated, fails on the first input: in the primary format the parsed object is
  the tool call as it is, so its \<open>args\<close> keep \<open>path\<close> and \<open>data\<close> and have neither
  \<open>file_name\<close> nor \<open>content\<close>.
\<close>

theorem C3_primary_format_keeps_aliases:
  "parseToolCall (sampleEnv True (\<lambda>msgs. Ok saveCallText) sampleParse) saveCallText =
     JObj [(''tool'', JStr ''save_file''),
           (''args'', JObj [(''path'', JStr ''a.ts''), (''data'', JStr ''x'')])]
   \<and> getOpt (getOpt (parseToolCall (sampleEnv True (\<lambda>msgs. Ok saveCallText) sampleParse) saveCallText)
         ''args'') ''file_name'' = JUndefined
   \<and> getOpt (getOpt (parseToolCall (sampleEnv True (\<lambda>msgs. Ok saveCallText) sampleParse) saveCallText)
         ''args'') ''content'' = JUndefined"
  by code_simp

text \<open>
  C3, amended. The three inputs parse to a call of \<open>save_file\<close>. For the second input
  and for the bare object with a \<open>to=functions.save_file\<close> token the \<open>args\<close> contain
  \<open>file_name = "a.ts"\<close> and \<open>content = "x"\<close>; for the first input the \<open>args\<close> are
  the given ones, \<open>path\<close> and \<open>data\<close>. The dispatch of \<open>save_file\<close> reads the
  aliases itself, so each of the three calls saves \<open>a.ts\<close> with the content \<open>x\<close>
  (file system allowed, path accepted, write succeeding).
\<close>

theorem C3_save_file_three_shapes:
  assumes "jsonParse e saveCallText = Some saveCallValue"
    and "jsonParse e altCallText = Some altCallValue"
    and "jsonParse e bareArgsText = Some bareArgsValue"
    and "jsonMatch t = Some bareArgsText" and "toolNameMatch t = Some ''functions.save_file''"
    and "allowFileSystem e" and "validatePath (processCwd e) cwd ''a.ts'' = Inr fpath"
    and "canMkdir e fpath" and "canWrite e fpath"
  shows "parseToolCall e saveCallText =
           JObj [(''tool'', JStr ''save_file''),
                 (''args'', JObj [(''path'', JStr ''a.ts''), (''data'', JStr ''x'')])]
       \<and> parseToolCall e altCallText =
           JObj [(''tool'', JStr ''save_file''),
                 (''args'', JObj [(''file_name'', JStr ''a.ts''), (''content'', JStr ''x'')])]
       \<and> parseToolCall e t =
           JObj [(''tool'', JStr ''save_file''),
                 (''args'', JObj [(''path'', JStr ''a.ts''), (''data'', JStr ''x''),
                                  (''file_name'', JStr ''a.ts''), (''content'', JStr ''x'')])]
       \<and> (\<forall>text \<in> {saveCallText, altCallText, t}.
             isToolCall (parseToolCall e text)
             \<and> dispatch e cwd (parseToolCall e text) st =
                 (''Success: File saved to '' @ fpath,
                  st\<lparr>fsLog := fsLog st @ [Write fpath ''x''],
                      filesModified := filesModified st @ [''a.ts'']\<rparr>))"
proof -
  have p1: "parseToolCall e saveCallText =
           JObj [(''tool'', JStr ''save_file''),
                 (''args'', JObj [(''path'', JStr ''a.ts''), (''data'', JStr ''x'')])]"
    using assms(1) interpret_primary [of saveCallText]
    by (simp add: parseToolCall_def jsonMatch_saveCallText) (simp add: saveCallValue_def)
  have p2: "parseToolCall e altCallText =
           JObj [(''tool'', JStr ''save_file''),
                 (''args'', JObj [(''file_name'', JStr ''a.ts''), (''content'', JStr ''x'')])]"
    using assms(2) interpret_secondary [of altCallText]
    by (simp add: parseToolCall_def jsonMatch_altCallText)
  have p3: "parseToolCall e t =
           JObj [(''tool'', JStr ''save_file''),
                 (''args'', JObj [(''path'', JStr ''a.ts''), (''data'', JStr ''x''),
                                  (''file_name'', JStr ''a.ts''), (''content'', JStr ''x'')])]"
    using assms(3,4) interpret_fallback [OF assms(5)]
    by (simp add: parseToolCall_def)
  let ?ok = "(''Success: File saved to '' @ fpath,
                  st\<lparr>fsLog := fsLog st @ [Write fpath ''x''],
                      filesModified := filesModified st @ [''a.ts'']\<rparr>)"
  have s: "saveFileTool e cwd args st = ?ok"
    if "getOpt args ''files'' = JUndefined"
      "orElse (orElse (getOpt args ''file_name'') (getOpt args ''name'')) (getOpt args ''path'') = JStr ''a.ts''"
      "orElse (getOpt args ''content'') (getOpt args ''data'') = JStr ''x''" for args
    using saveFileTool_single [OF that _ _ assms(7,8,9), of st]
    by (simp add: recordSave_def addEvents_def)
  have d1: "dispatch e cwd (parseToolCall e saveCallText) st = ?ok"
    using assms(6) by (simp add: p1 dispatch_def s orElse_def)
  have d2: "dispatch e cwd (parseToolCall e altCallText) st = ?ok"
    using assms(6) by (simp add: p2 dispatch_def s orElse_def)
  have d3: "dispatch e cwd (parseToolCall e t) st = ?ok"
    using assms(6) by (simp add: p3 dispatch_def s orElse_def)
  have i: "isToolCall (parseToolCall e saveCallText)" "isToolCall (parseToolCall e altCallText)"
    "isToolCall (parseToolCall e t)"
    by (simp_all add: p1 p2 p3 isToolCall_def)
  from p1 p2 p3 d1 d2 d3 i show ?thesis by simp
qed

theorem C3_save_file_three_shapes_witness:
  "getOpt (getOpt (parseToolCall (sampleEnv True (\<lambda>msgs. Ok fallbackReply) sampleParse) fallbackReply)
      ''args'') ''file_name'' = JStr ''a.ts''
   \<and> getOpt (getOpt (parseToolCall (sampleEnv True (\<lambda>msgs. Ok fallbackReply) sampleParse) altCallText)
      ''args'') ''content'' = JStr ''x''
   \<and> dispatch (sampleEnv True (\<lambda>msgs. Ok fallbackReply) sampleParse) ''/ws''
        (parseToolCall (sampleEnv True (\<lambda>msgs. Ok fallbackReply) sampleParse) saveCallText)
        (initialAgent []) =
       (''Success: File saved to /ws/a.ts'',
        (initialAgent [])\<lparr>fsLog := [Write ''/ws/a.ts'' ''x''], filesModified := [''a.ts'']\<rparr>)"
proof -
  let ?e = "sampleEnv True (\<lambda>msgs. Ok fallbackReply) sampleParse"
  have a1: "jsonParse ?e saveCallText = Some saveCallValue" by code_simp
  have a2: "jsonParse ?e altCallText = Some altCallValue" by code_simp
  have a3: "jsonParse ?e bareArgsText = Some bareArgsValue" by code_simp
  have a4: "jsonMatch fallbackReply = Some bareArgsText" by code_simp
  have a5: "toolNameMatch fallbackReply = Some ''functions.save_file''" by code_simp
  have a6: "allowFileSystem ?e" by (simp add: sampleEnv_def)
  have a7: "validatePath (processCwd ?e) ''/ws'' ''a.ts'' = Inr ''/ws/a.ts''" by code_simp
  have a8: "canMkdir ?e ''/ws/a.ts''" by (simp add: sampleEnv_def)
  have a9: "canWrite ?e ''/ws/a.ts''" by (simp add: sampleEnv_def)
  note th = C3_save_file_three_shapes [OF a1 a2 a3 a4 a5 a6 a7 a8 a9, of "initialAgent []"]
  have q2: "parseToolCall ?e altCallText =
           JObj [(''tool'', JStr ''save_file''),
                 (''args'', JObj [(''file_name'', JStr ''a.ts''), (''content'', JStr ''x'')])]"
    using th by (rule conjunct2 [THEN conjunct1])
  have q3: "parseToolCall ?e fallbackReply =
           JObj [(''tool'', JStr ''save_file''),
                 (''args'', JObj [(''path'', JStr ''a.ts''), (''data'', JStr ''x''),
                                  (''file_name'', JStr ''a.ts''), (''content'', JStr ''x'')])]"
    using th by (rule conjunct2 [THEN conjunct2, THEN conjunct1])
  have q4: "\<forall>text \<in> {saveCallText, altCallText, fallbackReply}.
             isToolCall (parseToolCall ?e text)
             \<and> dispatch ?e ''/ws'' (parseToolCall ?e text) (initialAgent []) =
                 (''Success: File saved to '' @ ''/ws/a.ts'',
                  (initialAgent [])\<lparr>fsLog := fsLog (initialAgent []) @ [Write ''/ws/a.ts'' ''x''],
                      filesModified := filesModified (initialAgent []) @ [''a.ts'']\<rparr>)"
    using th by (rule conjunct2 [THEN conjunct2, THEN conjunct2])
  have d: "dispatch ?e ''/ws'' (parseToolCall ?e saveCallText) (initialAgent []) =
       (''Success: File saved to /ws/a.ts'',
        (initialAgent [])\<lparr>fsLog := [Write ''/ws/a.ts'' ''x''], filesModified := [''a.ts'']\<rparr>)"
    using q4 [THEN bspec, of saveCallText] by (simp add: initialAgent_def)
  have g1: "getOpt (getOpt (parseToolCall ?e fallbackReply) ''args'') ''file_name'' = JStr ''a.ts''"
    by (simp add: q3)
  have g2: "getOpt (getOpt (parseToolCall ?e altCallText) ''args'') ''content'' = JStr ''x''"
    by (simp add: q2)
  from g1 g2 d show ?thesis by (intro conjI)
qed




text \<open>
  C5, as stated, fails: the span the parser takes is not the first well-formed
  \<open>{...}\<close> span. In the reply below the first balanced span is a complete
  \<open>save_file\<close> call, which alone parses to a tool call; the parser takes the text up to
  the last \<open>}\<close>, \<open>JSON.parse\<close> fails on it and the result is \<open>null\<close>.
\<close>

theorem C5_first_balanced_span_not_used:
  "jsonMatch twoObjectsReply = Some twoObjectsReply
   \<and> specFirstWellFormedSpan twoObjectsReply = Some saveCallText
   \<and> parseToolCall (sampleEnv True (\<lambda>msgs. Ok twoObjectsReply) sampleParse) twoObjectsReply = JNull
   \<and> parseToolCall (sampleEnv True (\<lambda>msgs. Ok twoObjectsReply) sampleParse) saveCallText = saveCallValue"
  by code_simp

text \<open>
  C5, amended. The parser considers one span, from the first \<open>{\<close> of the trimmed text
  to its last \<open>}\<close>. When \<open>JSON.parse\<close> fails on that span the parser result is
  \<open>null\<close>, and the turn (tools enabled, no refusal phrase) is handled as a turn with no
  call, not as an error: the loop ends with the text as final text when the text contains
  \<open>TASK_COMPLETED\<close> or the turn is the last allowed one, and otherwise appends the text
  and the nudge and continues.
\<close>

theorem C5_unparsable_span_is_no_call:
  assumes "chat e (msgList st) = Ok raw" and "\<not> isRefusal (trim (cleanup raw))"
    and "jsonMatch (trim (cleanup raw)) = Some s" and "jsonParse e s = None"
  shows "(\<exists>pre post. trim (cleanup raw) = pre @ s @ post \<and> CHR ''{'' \<notin> set pre
            \<and> CHR ''}'' \<notin> set post \<and> hd s = CHR ''{'' \<and> last s = CHR ''}'')
       \<and> parseToolCall e (trim (cleanup raw)) = JNull
       \<and> turn e True cwd loopLimit st =
           (if includesStr (cleanup raw) ''TASK_COMPLETED'' \<or> int (loops st) \<ge> int loopLimit - 1
            then Break (st\<lparr>chatCalls := chatCalls st + 1, finalContent := cleanup raw\<rparr>)
            else Continue (st\<lparr>chatCalls := chatCalls st + 1,
                              msgList := msgList st @ [\<lparr>role = Assistant, content = cleanup raw\<rparr>,
                                                       \<lparr>role = System, content = noToolNotice\<rparr>],
                              loops := loops st + 1\<rparr>))"
proof -
  have p: "parseToolCall e (trim (cleanup raw)) = JNull"
    using assms(3,4) by (rule parseToolCall_parse_fails)
  then have n: "\<not> isToolCall (parseToolCall e (trim (cleanup raw)))" by simp
  have t: "turn e True cwd loopLimit st =
           (if includesStr (cleanup raw) ''TASK_COMPLETED'' \<or> int (loops st) \<ge> int loopLimit - 1
            then Break (st\<lparr>chatCalls := chatCalls st + 1, finalContent := cleanup raw\<rparr>)
            else Continue (st\<lparr>chatCalls := chatCalls st + 1,
                              msgList := msgList st @ [\<lparr>role = Assistant, content = cleanup raw\<rparr>,
                                                       \<lparr>role = System, content = noToolNotice\<rparr>],
                              loops := loops st + 1\<rparr>))"
    using turn_no_call [OF assms(1,2) n, of cwd loopLimit] by (simp add: push2_def)
  from jsonMatch_span [OF assms(3)] p t show ?thesis by blast
qed

theorem C5_unparsable_span_is_no_call_witness:
  \<open>jsonMatch brokenCallReply = Some ''{"tool": save_file, "args": {}}''
   \<and> parseToolCall (sampleEnv True (\<lambda>msgs. Ok brokenCallReply) sampleParse) brokenCallReply = JNull
   \<and> turn (sampleEnv True (\<lambda>msgs. Ok brokenCallReply) sampleParse) True ''/ws'' 8 (initialAgent []) =
       Continue \<lparr>msgList = [\<lparr>role = Assistant, content = brokenCallReply\<rparr>,
                             \<lparr>role = System, content = noToolNotice\<rparr>],
                  loops = 1, finalContent = [], filesModified = [], processedFiles = {},
                  fsLog = [], chatCalls = 1\<rparr>\<close>
proof -
  let ?e = "sampleEnv True (\<lambda>msgs. Ok brokenCallReply) sampleParse"
  have c: "chat ?e (msgList (initialAgent [])) = Ok brokenCallReply" by (simp add: sampleEnv_def)
  have cl: "cleanup brokenCallReply = brokenCallReply" by code_simp
  have tr: "trim brokenCallReply = brokenCallReply" by code_simp
  have r: "\<not> isRefusal (trim (cleanup brokenCallReply))" by code_simp
  have j: \<open>jsonMatch (trim (cleanup brokenCallReply)) = Some ''{"tool": save_file, "args": {}}''\<close>
    by code_simp
  have q: \<open>jsonParse ?e ''{"tool": save_file, "args": {}}'' = None\<close> by code_simp
  have i: "\<not> includesStr brokenCallReply ''TASK_COMPLETED''" by code_simp
  show ?thesis
    using C5_unparsable_span_is_no_call [OF c r j q, of "''/ws''" 8] cl tr i j
    by (simp add: initialAgent_def)
qed

text \<open>
  C6, as stated, fails when tools are not enabled: the reply below contains a refusal
  phrase, and the run returns it as the response after one call, without appending
  anything to the transcript.
\<close>

theorem C6_refusal_not_checked_without_tools:
  "isRefusal (trim (cleanup hedgedReply)) \<and>
   runAgentLoop (sampleEnv False (\<lambda>msgs. Ok hedgedReply) sampleParse) ''coder'' ''t'' ''c'' 8 False ''/ws'' =
     (\<lparr>response = Some hedgedReply, error = None, resultFiles = []\<rparr>,
      (initialAgent (initialMessages (sampleEnv False (\<lambda>msgs. Ok hedgedReply) sampleParse) False
          ''coder'' ''t'' ''c'' ''/ws''))\<lparr>chatCalls := 1\<rparr>)"
proof -
  let ?e = "sampleEnv False (\<lambda>msgs. Ok hedgedReply) sampleParse"
  let ?st0 = "initialAgent (initialMessages ?e False ''coder'' ''t'' ''c'' ''/ws'')"
  have r: "isRefusal (trim (cleanup hedgedReply))" by code_simp
  have cl: "cleanup hedgedReply = hedgedReply" by code_simp
  have c: "chat ?e (msgList ?st0) = Ok hedgedReply" by (simp add: sampleEnv_def)
  have "agentLoop ?e False ''/ws'' 8 ?st0 =
          (Some \<lparr>response = Some hedgedReply, error = None, resultFiles = filesModified ?st0\<rparr>,
           ?st0\<lparr>chatCalls := chatCalls ?st0 + 1\<rparr>)"
    using turn_tools_disabled [OF c] cl by (simp add: agentLoop_turn initialAgent_def)
  then have "runAgentLoop ?e ''coder'' ''t'' ''c'' 8 False ''/ws'' =
     (\<lparr>response = Some hedgedReply, error = None, resultFiles = []\<rparr>, ?st0\<lparr>chatCalls := 1\<rparr>)"
    by (simp add: runAgentLoop_def initialAgent_def sampleEnv_def)
  with r show ?thesis by simp
qed

text \<open>
  C6, amended. With tools enabled, a reply in which a refusal phrase occurs (the trimmed
  text, lower-cased, contains it) is handled as a refusal whatever else it contains: the
  reply is appended as an assistant message, the corrective system message after it, the
  turn counter goes up by one, nothing is dispatched (\<open>filesModified\<close> and the
  file-system events are unchanged) and the loop goes on from that state.
\<close>

theorem C6_refusal_takes_priority:
  assumes "chat e (msgList st) = Ok raw" and "isRefusal (trim (cleanup raw))"
    and "loops st < loopLimit"
  shows "turn e True cwd loopLimit st =
           Continue (st\<lparr>chatCalls := chatCalls st + 1,
                        msgList := msgList st @ [\<lparr>role = Assistant, content = cleanup raw\<rparr>,
                                                 \<lparr>role = System, content = refusalNotice\<rparr>],
                        loops := loops st + 1\<rparr>)
       \<and> agentLoop e True cwd loopLimit st =
           agentLoop e True cwd loopLimit
             (st\<lparr>chatCalls := chatCalls st + 1,
                 msgList := msgList st @ [\<lparr>role = Assistant, content = cleanup raw\<rparr>,
                                          \<lparr>role = System, content = refusalNotice\<rparr>],
                 loops := loops st + 1\<rparr>)"
proof -
  have t: "turn e True cwd loopLimit st =
           Continue (st\<lparr>chatCalls := chatCalls st + 1,
                        msgList := msgList st @ [\<lparr>role = Assistant, content = cleanup raw\<rparr>,
                                                 \<lparr>role = System, content = refusalNotice\<rparr>],
                        loops := loops st + 1\<rparr>)"
    using turn_refusal [OF assms(1,2)] by (simp add: push2_def)
  have "agentLoop e True cwd loopLimit st =
          (case turn e True cwd loopLimit st of
             Return r st' \<Rightarrow> (Some r, st')
           | Break st' \<Rightarrow> (None, st')
           | Continue st' \<Rightarrow> agentLoop e True cwd loopLimit st')"
    using assms(3) by (subst agentLoop.simps) simp
  with t show ?thesis by simp
qed

theorem C6_refusal_takes_priority_witness:
  "isToolCall (parseToolCall (sampleEnv True (\<lambda>msgs. Ok hedgedReply) sampleParse) (trim (cleanup hedgedReply)))
   \<and> turn (sampleEnv True (\<lambda>msgs. Ok hedgedReply) sampleParse) True ''/ws'' 8 (initialAgent []) =
       Continue \<lparr>msgList = [\<lparr>role = Assistant, content = hedgedReply\<rparr>,
                             \<lparr>role = System, content = refusalNotice\<rparr>],
                  loops = 1, finalContent = [], filesModified = [], processedFiles = {},
                  fsLog = [], chatCalls = 1\<rparr>"
proof -
  let ?e = "sampleEnv True (\<lambda>msgs. Ok hedgedReply) sampleParse"
  have c: "chat ?e (msgList (initialAgent [])) = Ok hedgedReply" by (simp add: sampleEnv_def)
  have r: "isRefusal (trim (cleanup hedgedReply))" by code_simp
  have l: "loops (initialAgent []) < 8" by (simp add: initialAgent_def)
  have cl: "cleanup hedgedReply = hedgedReply" by code_simp
  have p: "isToolCall (parseToolCall ?e (trim (cleanup hedgedReply)))" by code_simp
  show ?thesis
    using C6_refusal_takes_priority [OF c r l, of "''/ws''"] cl p
    by (simp add: initialAgent_def)
qed

text \<open>
  C7, as stated, fails. In the text below two blocks come to the single-file path with the
  inferred name \<open>a.ts\<close>, and a JSON batch block after them has an entry for \<open>a.ts\<close>.
  The batch block is processed first and marks the name as processed, so both blocks are
  skipped: the only write of the pass carries the batch entry's content, not the body of
  the last of the two blocks.
\<close>

theorem C7_batch_entry_overrides_blocks:
  "map code (namedBlocks (sampleEnv True (\<lambda>msgs. Ok twiceThenBatchReply) batchParse) ''/ws''
       twiceThenBatchReply ''a.ts'') = [twiceBody1, twiceBody2]
   \<and> fsLog (autoSavePass (sampleEnv True (\<lambda>msgs. Ok twiceThenBatchReply) batchParse) ''/ws''
        ((initialAgent [])\<lparr>finalContent := twiceThenBatchReply\<rparr>)) =
       [Write ''/ws/a.ts'' ''export const version = 0;'']"
  by code_simp

text \<open>
  C7, amended. Let \<open>p\<close> be a file name that the pass infers for at least one block that
  comes to the single-file path (not handled as a JSON batch, trimmed body longer than 50
  characters), and \<open>fp\<close> the file it joins to. If \<open>mkdir\<close> and \<open>writeFile\<close> succeed on
  \<open>fp\<close>, no entry of a JSON batch block is named \<open>p\<close> or resolves to \<open>fp\<close>, and no
  block with another inferred name joins to \<open>fp\<close>, then the pass writes \<open>fp\<close> exactly
  once, with the body of the last block of the text, in the order of the text, whose
  inferred name is \<open>p\<close>; the earlier ones are skipped.
\<close>

theorem C7_last_named_block_written_once:
  assumes "p \<noteq> []" and "fp = join cwd p" and "canMkdir e fp" and "canWrite e fp"
    and "\<forall>m \<in> set (matchAll (finalContent st)). \<forall>n \<in> set (batchNames e m).
           n \<noteq> p \<and> resolve (processCwd e) [cwd, n] \<noteq> fp"
    and "\<forall>m \<in> set (matchAll (finalContent st)).
           reachesSingle e cwd m \<and> inferFileName (finalContent st) (index m) (code m) \<noteq> p \<longrightarrow>
           join cwd (inferFileName (finalContent st) (index m) (code m)) \<noteq> fp"
    and "namedBlocks e cwd (finalContent st) p \<noteq> []"
  shows "eventsOn fp (fsLog (autoSavePass e cwd st)) =
           eventsOn fp (fsLog st) @ [Write fp (code (last (namedBlocks e cwd (finalContent st) p)))]"
proof -
  let ?t = "finalContent st"
  let ?st = "st\<lparr>processedFiles := {}\<rparr>"
  let ?sel = "\<lambda>m. reachesSingle e cwd m \<and> inferFileName ?t (index m) (code m) = p"
  have srt: "sorted (map index (rev (rev (matchAll ?t))))"
    by (simp add: matchAll_sorted)
  have below: "\<forall>m \<in> set (rev (matchAll ?t)). index m \<le> length ?t"
    by (simp add: matchAll_index)
  have agree: "agreesUpTo ?t (length ?t) ?st"
    by (simp add: agreesUpTo_def)
  have "eventsOn fp (fsLog (foldl (extractBlock e cwd) ?st (rev (matchAll ?t)))) =
       eventsOn fp (fsLog ?st) @
         (if p \<in> processedFiles ?st then []
          else (case filter ?sel (rev (matchAll ?t)) of [] \<Rightarrow> [] | m # ms \<Rightarrow> [Write fp (code m)]))"
    using foldl_extractBlock_events [OF assms(2,1,3,4) srt below agree] assms(5,6) by simp
  moreover have "(case filter ?sel (rev (matchAll ?t)) of [] \<Rightarrow> [] | m # ms \<Rightarrow> [Write fp (code m)])
      = [Write fp (code (last (filter ?sel (matchAll ?t))))]"
    using assms(7) hd_rev_filter [of ?sel "matchAll ?t" "\<lambda>m. Write fp (code m)"]
    by (simp add: namedBlocks_def)
  ultimately show ?thesis
    by (simp add: autoSavePass_def namedBlocks_def)
qed

theorem C7_last_named_block_written_once_witness:
  "map code (namedBlocks (sampleEnv True (\<lambda>msgs. Ok twiceReply) batchParse) ''/ws'' twiceReply ''a.ts'')
     = [twiceBody1, twiceBody2]
   \<and> eventsOn ''/ws/a.ts'' (fsLog (autoSavePass (sampleEnv True (\<lambda>msgs. Ok twiceReply) batchParse) ''/ws''
        ((initialAgent [])\<lparr>finalContent := twiceReply\<rparr>))) = [Write ''/ws/a.ts'' twiceBody2]"
proof -
  let ?e = "sampleEnv True (\<lambda>msgs. Ok twiceReply) batchParse"
  let ?st = "(initialAgent [])\<lparr>finalContent := twiceReply\<rparr>"
  have t: "finalContent ?st = twiceReply" by simp
  have a1: "''a.ts'' \<noteq> []" by simp
  have a2: "''/ws/a.ts'' = join ''/ws'' ''a.ts''" by code_simp
  have a3: "canMkdir ?e ''/ws/a.ts''" by (simp add: sampleEnv_def)
  have a4: "canWrite ?e ''/ws/a.ts''" by (simp add: sampleEnv_def)
  have a5: "\<forall>m \<in> set (matchAll (finalContent ?st)). \<forall>n \<in> set (batchNames ?e m).
           n \<noteq> ''a.ts'' \<and> resolve (processCwd ?e) [''/ws'', n] \<noteq> ''/ws/a.ts''"
    unfolding t by code_simp
  have a6: "\<forall>m \<in> set (matchAll (finalContent ?st)).
           reachesSingle ?e ''/ws'' m \<and> inferFileName (finalContent ?st) (index m) (code m) \<noteq> ''a.ts'' \<longrightarrow>
           join ''/ws'' (inferFileName (finalContent ?st) (index m) (code m)) \<noteq> ''/ws/a.ts''"
    unfolding t by code_simp
  have n: "map code (namedBlocks ?e ''/ws'' twiceReply ''a.ts'') = [twiceBody1, twiceBody2]"
    by code_simp
  then have a7: "namedBlocks ?e ''/ws'' (finalContent ?st) ''a.ts'' \<noteq> []"
    unfolding t by auto
  have l: "code (last (namedBlocks ?e ''/ws'' twiceReply ''a.ts'')) = twiceBody2"
    using n by (metis last_map last.simps list.map_disc_iff list.distinct(1))
  have "eventsOn ''/ws/a.ts'' (fsLog (autoSavePass ?e ''/ws'' ?st)) =
           eventsOn ''/ws/a.ts'' (fsLog ?st) @ [Write ''/ws/a.ts'' (code (last (namedBlocks ?e ''/ws'' (finalContent ?st) ''a.ts'')))]"
    using C7_last_named_block_written_once [OF a1 a2 a3 a4 a5 a6 a7] .
  with l have "eventsOn ''/ws/a.ts'' (fsLog (autoSavePass ?e ''/ws'' ?st)) = [Write ''/ws/a.ts'' twiceBody2]"
    by (simp add: initialAgent_def eventsOn_def)
  with n show ?thesis by simp
qed

text \<open>
  C8. A block whose language tag is one of the shell tags, with no file name found in the
  500 characters in front of it nor in a comment on its first line, is left alone by the
  extraction pass, whatever the state in which its turn comes: nothing is written, no
  name is recorded and the text is unchanged.
\<close>

theorem C8_unlabelled_shell_block_not_saved:
  assumes "toLowerCase (case langGroup m of None \<Rightarrow> ''txt'' | Some l \<Rightarrow> l) \<in> set shellTags"
    and "nameMatch (drop (index m - 500) (take (index m) (finalContent st))) = None"
    and "commentMatch (trim (takeWhile (\<lambda>c. c \<noteq> CHR 0x0A) (code m))) = None"
  shows "extractBlock e cwd st m = st"
proof -
  let ?lang = "toLowerCase (case langGroup m of None \<Rightarrow> ''txt'' | Some l \<Rightarrow> l)"
  have nj: "?lang \<noteq> ''json''"
    using assms(1) json_not_shell by metis
  have n: "inferFileName (finalContent st) (index m) (code m) = []"
    using assms(2,3) by (simp add: inferFileName_def Let_def)
  have "saveSingle e cwd ?lang m st = st"
    using n by (simp add: saveSingle_def Let_def)
  then show ?thesis
    using nj by (simp add: extractBlock_def Let_def)
qed

theorem C8_unlabelled_shell_block_not_saved_witness:
  "matchAll shellReply = [shellBlock]
   \<and> 50 < length (trim (code shellBlock))
   \<and> extractBlock (sampleEnv True (\<lambda>msgs. Ok shellReply) sampleParse) ''/ws''
        ((initialAgent [])\<lparr>finalContent := shellReply\<rparr>) shellBlock =
       (initialAgent [])\<lparr>finalContent := shellReply\<rparr>"
proof -
  let ?st = "(initialAgent [])\<lparr>finalContent := shellReply\<rparr>"
  have m: "matchAll shellReply = [shellBlock]" by code_simp
  have n: "50 < length (trim (code shellBlock))" by code_simp
  have a: "toLowerCase (case langGroup shellBlock of None \<Rightarrow> ''txt'' | Some l \<Rightarrow> l) \<in> set shellTags"
    by code_simp
  have b: "nameMatch (drop (index shellBlock - 500) (take (index shellBlock) (finalContent ?st))) = None"
    by code_simp
  have c: "commentMatch (trim (takeWhile (\<lambda>c. c \<noteq> CHR 0x0A) (code shellBlock))) = None"
    by code_simp
  show ?thesis
    using C8_unlabelled_shell_block_not_saved [OF a b c] m n by simp
qed

text \<open>
  C9. In every run, when the chat-completion call of a turn is answered with a status that
  is not 2xx, or throws, \<open>runAgentLoop\<close> returns at once: the result carries the error
  and the \<open>filesModified\<close> accumulated up to that turn, and the final state is the state
  at the beginning of the turn with one more call counted (the request is not sent again,
  nothing is written, the extraction pass and the history log are not reached).
\<close>

theorem C9_failed_call_returns_error:
  assumes "turnBegins e (allow_tools e \<or> forceTools) cwd loopLimit
             (initialAgent (initialMessages e (allow_tools e \<or> forceTools) agentRole taskPrompt contextData cwd))
             st"
    and "loops st < loopLimit"
  shows "(chat e (msgList st) = NotOk status \<longrightarrow>
            runAgentLoop e agentRole taskPrompt contextData loopLimit forceTools cwd =
              (\<lparr>response = None, error = Some (''API Error: '' @ showNat status),
                resultFiles = filesModified st\<rparr>,
               st\<lparr>chatCalls := chatCalls st + 1\<rparr>))
       \<and> (chat e (msgList st) = Threw msg \<longrightarrow>
            runAgentLoop e agentRole taskPrompt contextData loopLimit forceTools cwd =
              (\<lparr>response = None, error = Some msg, resultFiles = filesModified st\<rparr>,
               st\<lparr>chatCalls := chatCalls st + 1\<rparr>))"
proof -
  let ?te = "allow_tools e \<or> forceTools"
  let ?st0 = "initialAgent (initialMessages e ?te agentRole taskPrompt contextData cwd)"
  have same: "agentLoop e ?te cwd loopLimit ?st0 = agentLoop e ?te cwd loopLimit st"
    using assms(1) by (rule agentLoop_turnBegins)
  have unfold: "agentLoop e ?te cwd loopLimit st =
          (case turn e ?te cwd loopLimit st of
             Return r st' \<Rightarrow> (Some r, st')
           | Break st' \<Rightarrow> (None, st')
           | Continue st' \<Rightarrow> agentLoop e ?te cwd loopLimit st')"
    using assms(2) by (rule agentLoop_turn)
  have a: "runAgentLoop e agentRole taskPrompt contextData loopLimit forceTools cwd =
              (\<lparr>response = None, error = Some (''API Error: '' @ showNat status),
                resultFiles = filesModified st\<rparr>,
               st\<lparr>chatCalls := chatCalls st + 1\<rparr>)"
    if "chat e (msgList st) = NotOk status"
    by (rule runAgentLoop_returned) (simp add: same unfold turn_NotOk [OF that])
  have b: "runAgentLoop e agentRole taskPrompt contextData loopLimit forceTools cwd =
              (\<lparr>response = None, error = Some msg, resultFiles = filesModified st\<rparr>,
               st\<lparr>chatCalls := chatCalls st + 1\<rparr>)"
    if "chat e (msgList st) = Threw msg"
    by (rule runAgentLoop_returned) (simp add: same unfold turn_Threw [OF that])
  from a b show ?thesis by blast
qed

theorem C9_failed_call_returns_error_witness:
  "runAgentLoop (sampleEnv True flakyChat sampleParse) ''coder'' ''t'' ''c'' 8 False ''/ws'' =
     (\<lparr>response = None, error = Some ''API Error: 503'', resultFiles = []\<rparr>,
      \<lparr>msgList = initialMessages (sampleEnv True flakyChat sampleParse) True ''coder'' ''t'' ''c'' ''/ws''
                   @ [\<lparr>role = Assistant, content = stallingReply\<rparr>,
                      \<lparr>role = System, content = noToolNotice\<rparr>],
       loops = 1, finalContent = [], filesModified = [], processedFiles = {}, fsLog = [],
       chatCalls = 2\<rparr>)"
proof -
  let ?e = "sampleEnv True flakyChat sampleParse"
  let ?te = "allow_tools ?e \<or> False"
  let ?m0 = "initialMessages ?e ?te ''coder'' ''t'' ''c'' ''/ws''"
  let ?st0 = "initialAgent ?m0"
  let ?st1 = "\<lparr>msgList = ?m0 @ [\<lparr>role = Assistant, content = stallingReply\<rparr>,
                                  \<lparr>role = System, content = noToolNotice\<rparr>],
       loops = 1, finalContent = [], filesModified = [], processedFiles = {}, fsLog = [],
       chatCalls = 1\<rparr>"
  have te: "?te = True" by (simp add: sampleEnv_def)
  have len: "length ?m0 = 2" by (simp add: initialMessages_def Let_def)
  have c0: "chat ?e (msgList ?st0) = Ok stallingReply"
    using len by (simp add: sampleEnv_def flakyChat_def initialAgent_def)
  have cl: "cleanup stallingReply = stallingReply" by code_simp
  have r: "\<not> isRefusal (trim (cleanup stallingReply))" by code_simp
  have p: "\<not> isToolCall (parseToolCall ?e (trim (cleanup stallingReply)))" by code_simp
  have i: "\<not> includesStr stallingReply ''TASK_COMPLETED''" by code_simp
  have t0: "turn ?e ?te ''/ws'' 8 ?st0 = Continue ?st1"
    using turn_no_call [OF c0 r p, of "''/ws''" 8] cl i te
    by (simp add: push2_def initialAgent_def)
  have b0: "turnBegins ?e ?te ''/ws'' 8 ?st0 ?st0" by (rule turnBegins.entered)
  have l0: "loops ?st0 < 8" by (simp add: initialAgent_def)
  have b1: "turnBegins ?e ?te ''/ws'' 8 ?st0 ?st1"
    using b0 l0 t0 by (rule turnBegins.continued)
  have l1: "loops ?st1 < 8" by simp
  have c1: "chat ?e (msgList ?st1) = NotOk 503"
    using len by (simp add: sampleEnv_def flakyChat_def)
  have s: "showNat 503 = ''503''" by code_simp
  show ?thesis
    using C9_failed_call_returns_error [OF b1 l1, of 503 "''x''"] c1 s te by simp
qed

text \<open>
  C10. With \<open>allow_tools\<close> and \<open>forceTools\<close> both false and a first call that succeeds,
  \<open>runAgentLoop\<close> returns after that one call: the response is the marker-stripped
  reply whatever it contains, \<open>filesModified\<close> is empty, the transcript is the initial
  one and no file-system event (no write, no history-log append) has happened.
\<close>

theorem C10_tools_disabled_one_call:
  assumes "\<not> allow_tools e" and "0 < loopLimit"
    and "chat e (initialMessages e False agentRole taskPrompt contextData cwd) = Ok raw"
  shows "runAgentLoop e agentRole taskPrompt contextData loopLimit False cwd =
           (\<lparr>response = Some (cleanup raw), error = None, resultFiles = []\<rparr>,
            (initialAgent (initialMessages e False agentRole taskPrompt contextData cwd))\<lparr>chatCalls := 1\<rparr>)"
proof -
  let ?st0 = "initialAgent (initialMessages e False agentRole taskPrompt contextData cwd)"
  have c: "chat e (msgList ?st0) = Ok raw"
    using assms(3) by (simp add: initialAgent_def)
  have "agentLoop e False cwd loopLimit ?st0 =
          (Some \<lparr>response = Some (cleanup raw), error = None, resultFiles = filesModified ?st0\<rparr>,
           ?st0\<lparr>chatCalls := chatCalls ?st0 + 1\<rparr>)"
    using assms(2) turn_tools_disabled [OF c] by (simp add: agentLoop_turn initialAgent_def)
  then show ?thesis
    using assms(1) by (simp add: runAgentLoop_def initialAgent_def)
qed

theorem C10_tools_disabled_one_call_witness:
  "runAgentLoop (sampleEnv False (\<lambda>msgs. Ok refusingReply) (\<lambda>s. None)) ''coder'' ''t'' ''c'' 8 False ''/ws'' =
     (\<lparr>response = Some ''As an AI I cannot run tools.'', error = None, resultFiles = []\<rparr>,
      (initialAgent (initialMessages (sampleEnv False (\<lambda>msgs. Ok refusingReply) (\<lambda>s. None)) False
          ''coder'' ''t'' ''c'' ''/ws''))\<lparr>chatCalls := 1\<rparr>)"
proof -
  let ?e = "sampleEnv False (\<lambda>msgs. Ok refusingReply) (\<lambda>s. None)"
  have a: "\<not> allow_tools ?e" by (simp add: sampleEnv_def)
  have l: "0 < (8::nat)" by simp
  have c: "chat ?e (initialMessages ?e False ''coder'' ''t'' ''c'' ''/ws'') = Ok refusingReply"
    by (simp add: sampleEnv_def)
  have r: "cleanup refusingReply = ''As an AI I cannot run tools.''"
    by code_simp
  show ?thesis
    using C10_tools_disabled_one_call [OF a l c] r by simp
qed

end
